theory Spec2Isabelle
  imports Complex_Main "HOL-Library.AList"
begin

section \<open>Data model of \<open>api/models.py\<close>\<close>

text \<open>
  Timestamps (\<open>DateTimeField\<close>) are totally ordered instants; they are modelled as
  integers (microseconds since the epoch). Primary keys and foreign keys are natural
  numbers. \<open>FloatField\<close> values are never computed with, only stored and compared, so
  the type of floats is left as a type parameter \<open>'f\<close>.
\<close>

type_synonym timestamp = int

text \<open>
  \<open>InstanceEvent.TYPE = model_utils.Choices("power_on", "power_off", "attribute_change")\<close>:
  \<open>TYPE.power_on\<close>, \<open>TYPE.power_off\<close> and \<open>TYPE.attribute_change\<close> are these three
  strings. The column \<open>event_type\<close> is a \<open>CharField(max_length=32, choices=TYPE)\<close>: it
  holds a string, and neither \<open>save()\<close> nor \<open>objects.create()\<close> checks the string
  against the choices. (\<open>TYPE\<close> is reserved syntax here, hence \<open>event_TYPE\<close>.)
\<close>

definition power_on :: string where
  "power_on = ''power_on''"

definition power_off :: string where
  "power_off = ''power_off''"

definition attribute_change :: string where
  "attribute_change = ''attribute_change''"

definition event_TYPE :: "string list" where
  "event_TYPE = [power_on, power_off, attribute_change]"

text \<open>Python exceptions that the modelled code can raise, catch or let through.\<close>

datatype py_error =
    ValueError | TypeError | KeyError | UnboundLocalError
  | IntegrityError | OtherError string

record cloud_account =
  acct_id :: nat
  is_enabled :: bool
  enabled_at :: timestamp

text \<open>
  \<open>class Instance\<close> (\<open>instance\<close> is a reserved word here, hence the name of the
  record): \<open>cloud_account\<close> is a non-null foreign key, \<open>machine_image\<close> a nullable one.
\<close>

record instance_row =
  inst_id :: nat
  inst_cloud_account :: nat
  machine_image :: "nat option"

text \<open>
  \<open>class InstanceEvent\<close>: \<open>instance\<close> (foreign key, \<open>on_delete=CASCADE\<close>),
  \<open>event_type\<close>, \<open>occurred_at\<close>.

  Modelled from the spec: \<open>attributes\<close>, the hardware-profile identifier of an event.
  In the repository it is a field of the cloud-specific \<open>content_object\<close> of the
  event, whose class is not among the sources; the spec's Event carries it as an
  optional \<open>attributes\<close> value.
\<close>

record instance_event =
  ev_id :: nat
  ev_instance :: nat
  event_type :: string
  occurred_at :: timestamp
  attributes :: "string option"

text \<open>
  \<open>class Run\<close>: \<open>start_time\<close> (not null), \<open>end_time\<close> (nullable), \<open>machineimage\<close>
  (nullable foreign key), \<open>instance\<close> (foreign key), \<open>instance_type\<close>, \<open>memory\<close> and
  \<open>vcpu\<close> (all nullable).
\<close>

record 'f run =
  start_time :: timestamp
  end_time :: "timestamp option"
  machineimage :: "nat option"
  run_instance :: nat
  instance_type :: "string option"
  memory :: "'f option"
  vcpu :: "int option"

text \<open>
  The effects that \<open>_power_off_instances\<close> performs, in the order it performs them:
  the creation of an event row and the call \<open>recalculate_runs(event)\<close>.
\<close>

datatype effect = EventCreated instance_event | RecalculateRuns instance_event

text \<open>
  The database tables the modelled code reads and writes, the counter of the
  auto-increment key of \<open>InstanceEvent\<close>, and the trace of effects.
\<close>

record 'f db =
  cloud_accounts :: "cloud_account list"
  machine_images :: "nat list"
  instances :: "instance_row list"
  events :: "instance_event list"
  runs :: "'f run list"
  next_event_id :: nat
  calls :: "effect list"

section \<open>The Reconciliation Engine\<close>

text \<open>
  Modelled from the spec: the Reconciliation Engine (\<open>api.util.recalculate_runs\<close> is
  imported by \<open>_power_off_instances\<close> but \<open>api/util.py\<close> is not among the sources).
  The definitions of this section follow spec section 4.1: the replay state, the
  transition table, the end-of-history rule, the Catalog Lookup at emission time, and
  the replacement of the instance's Run set.
\<close>

text \<open>
  Modelled from the spec: the replay state, \<open>current_profile\<close> (optional),
  \<open>current_start\<close> (optional timestamp) and \<open>pending_runs\<close> (the Runs completed so far,
  in order). A run is open when \<open>current_start\<close> is set.
\<close>

record 'f replay_state =
  current_profile :: "string option"
  current_start :: "timestamp option"
  pending_runs :: "'f run list"

text \<open>
  Modelled from the spec: the Catalog Lookup, \<open>lookup(profileId) -> {memory, vcpu} |
  not-found\<close>, is a function to an option; \<open>emit_run\<close> resolves a Run's profile at
  emission time, and an unknown (or absent) profile identifier gives null memory and
  vcpu. The spec's Run has no machine image, so that nullable column stays null.
\<close>

definition emit_run ::
  "(string \<Rightarrow> ('f \<times> int) option) \<Rightarrow> nat \<Rightarrow> timestamp \<Rightarrow> timestamp option \<Rightarrow> string option \<Rightarrow> 'f run"
where
  "emit_run lookup i s e p =
     \<lparr> start_time = s, end_time = e, machineimage = None, run_instance = i,
       instance_type = p,
       memory = (case p of None \<Rightarrow> None
                 | Some n \<Rightarrow> (case lookup n of None \<Rightarrow> None | Some (m, v) \<Rightarrow> Some m)),
       vcpu = (case p of None \<Rightarrow> None
               | Some n \<Rightarrow> (case lookup n of None \<Rightarrow> None | Some (m, v) \<Rightarrow> Some v)) \<rparr>"

text \<open>
  Modelled from the spec: one row of the transition table per branch. In the closed
  state an \<open>attribute_change\<close> opens a run only when no run was opened earlier in the
  history (then \<open>pending_runs\<close> is still empty); the table names no action for a
  later one, which is taken as none. The table has no row for an event whose type
  is none of the three, and such an event makes no transition.
\<close>

definition replay_step ::
  "(string \<Rightarrow> ('f \<times> int) option) \<Rightarrow> nat \<Rightarrow> 'f replay_state \<Rightarrow> instance_event \<Rightarrow> 'f replay_state"
where
  "replay_step lookup i st ev =
     (case current_start st of
        None \<Rightarrow>
          if event_type ev = power_on
          then st\<lparr>current_start := Some (occurred_at ev), current_profile := attributes ev\<rparr>
          else if event_type ev = power_off
          then st
          else if event_type ev = attribute_change
          then (if pending_runs st = []
                then st\<lparr>current_start := Some (occurred_at ev), current_profile := attributes ev\<rparr>
                else st)
          else st
      | Some s \<Rightarrow>
          if event_type ev = power_on
          then st
          else if event_type ev = power_off
          then \<lparr> current_profile = None, current_start = None,
                 pending_runs = pending_runs st @
                   [emit_run lookup i s (Some (occurred_at ev)) (current_profile st)] \<rparr>
          else if event_type ev = attribute_change
          then (if attributes ev \<noteq> current_profile st
                then \<lparr> current_profile = attributes ev, current_start = Some (occurred_at ev),
                       pending_runs = pending_runs st @
                         [emit_run lookup i s (Some (occurred_at ev)) (current_profile st)] \<rparr>
                else st)
          else st)"

definition replay_init :: "'f replay_state" where
  "replay_init = \<lparr> current_profile = None, current_start = None, pending_runs = [] \<rparr>"

text \<open>Modelled from the spec: end of history, an open run is emitted with a null end.\<close>

definition replay_finish ::
  "(string \<Rightarrow> ('f \<times> int) option) \<Rightarrow> nat \<Rightarrow> 'f replay_state \<Rightarrow> 'f run list"
where
  "replay_finish lookup i st =
     (case current_start st of
        None \<Rightarrow> pending_runs st
      | Some s \<Rightarrow> pending_runs st @ [emit_run lookup i s None (current_profile st)])"

definition replay ::
  "(string \<Rightarrow> ('f \<times> int) option) \<Rightarrow> nat \<Rightarrow> instance_event list \<Rightarrow> 'f run list"
where
  "replay lookup i evs = replay_finish lookup i (foldl (replay_step lookup i) replay_init evs)"

text \<open>
  Modelled from the spec: \<open>GetEventHistory(instanceId)\<close>, the instance's events in
  ascending \<open>occurred_at\<close>, ties in insertion order. The event table is kept in
  insertion order and \<open>sort_key\<close> is a stable sort.
\<close>

definition GetEventHistory :: "nat \<Rightarrow> instance_event list \<Rightarrow> instance_event list" where
  "GetEventHistory i evs = sort_key occurred_at (filter (\<lambda>e. ev_instance e = i) evs)"

text \<open>
  Modelled from the spec: \<open>ReplaceRuns(instanceId, newRunSet)\<close>, the instance's prior
  Runs are deleted and the new ones stored.
\<close>

definition ReplaceRuns :: "nat \<Rightarrow> 'f run list \<Rightarrow> 'f run list \<Rightarrow> 'f run list" where
  "ReplaceRuns i new rs = filter (\<lambda>r. run_instance r \<noteq> i) rs @ new"

text \<open>Modelled from the spec: \<open>Reconcile(instanceId)\<close>, full-history replay and replacement.\<close>

definition Reconcile ::
  "(string \<Rightarrow> ('f \<times> int) option) \<Rightarrow> nat \<Rightarrow> 'f db \<Rightarrow> 'f db"
where
  "Reconcile lookup i s =
     s\<lparr>runs := ReplaceRuns i (replay lookup i (GetEventHistory i (events s))) (runs s)\<rparr>"

text \<open>The Runs an instance has in the Run Store.\<close>

definition runs_of :: "nat \<Rightarrow> 'f db \<Rightarrow> 'f run list" where
  "runs_of i s = filter (\<lambda>r. run_instance r = i) (runs s)"

text \<open>
  Two Runs overlap when their half-open intervals \<open>[start_time, end_time)\<close> intersect,
  a null \<open>end_time\<close> standing for no upper bound.
\<close>

definition before_end :: "timestamp \<Rightarrow> timestamp option \<Rightarrow> bool" where
  "before_end t e = (case e of None \<Rightarrow> True | Some u \<Rightarrow> t < u)"

definition overlaps :: "'f run \<Rightarrow> 'f run \<Rightarrow> bool" where
  "overlaps r1 r2 =
     (before_end (start_time r1) (end_time r2) \<and> before_end (start_time r2) (end_time r1))"

text \<open>The interval and profile of a Run, without its enrichment.\<close>

definition run_interval :: "'f run \<Rightarrow> timestamp \<times> timestamp option \<times> string option" where
  "run_interval r = (start_time r, end_time r, instance_type r)"

section \<open>Operations of \<open>api/models.py\<close>\<close>

text \<open>
  \<open>InstanceEvent.objects.filter(instance=instance).order_by("-occurred_at").first()\<close>:
  the instance's event with the greatest \<open>occurred_at\<close>, or \<open>None\<close> when it has no
  event. Among events with the same \<open>occurred_at\<close> the database is free to return any;
  the model returns the one inserted first.
\<close>

fun latest_event :: "instance_event list \<Rightarrow> instance_event option" where
  "latest_event [] = None"
| "latest_event (e # es) =
     (case latest_event es of
        None \<Rightarrow> Some e
      | Some m \<Rightarrow> if occurred_at e < occurred_at m then Some m else Some e)"

definition last_event :: "nat \<Rightarrow> instance_event list \<Rightarrow> instance_event option" where
  "last_event i evs = latest_event (filter (\<lambda>e. ev_instance e = i) evs)"

text \<open>
  The loop of \<open>CloudAccount._power_off_instances\<close>. \<open>recalculate_runs\<close> is imported from
  \<open>api.util\<close>, which is not among the sources; it is a parameter here, a function of
  the new event, the event table and the Run table that gives the Run table it
  leaves and the exception it raises, if any. The new event is created with
  \<open>event_type=InstanceEvent.TYPE.power_off\<close>, \<open>occurred_at=power_off_time\<close> and a
  cloud-specific content object created with no field set.

  The method has no transaction of its own. When \<open>recalculate_runs\<close> raises, the
  exception leaves the method and the database stays as the loop left it, the new
  event included: the result \<open>Inl\<close> carries the exception and that database.
\<close>

fun power_off_loop ::
  "(instance_event \<Rightarrow> instance_event list \<Rightarrow> 'f run list \<Rightarrow> 'f run list \<times> py_error option)
    \<Rightarrow> timestamp \<Rightarrow> instance_row list \<Rightarrow> 'f db \<Rightarrow> (py_error \<times> 'f db) + 'f db"
where
  "power_off_loop recalculate_runs power_off_time [] s = Inr s"
| "power_off_loop recalculate_runs power_off_time (inst # rest) s =
     (case last_event (inst_id inst) (events s) of
        None \<Rightarrow> power_off_loop recalculate_runs power_off_time rest s
      | Some le \<Rightarrow>
          if event_type le \<noteq> power_off
          then
            (let event = \<lparr> ev_id = next_event_id s, ev_instance = inst_id inst,
                           event_type = power_off, occurred_at = power_off_time,
                           attributes = None \<rparr>;
                 s1 = s\<lparr> events := events s @ [event],
                         next_event_id := Suc (next_event_id s),
                         calls := calls s @ [EventCreated event] \<rparr>
             in case recalculate_runs event (events s1) (runs s1) of
                  (rs, Some err) \<Rightarrow>
                    Inl (err, s1\<lparr> runs := rs, calls := calls s1 @ [RecalculateRuns event] \<rparr>)
                | (rs, None) \<Rightarrow>
                    power_off_loop recalculate_runs power_off_time rest
                      (s1\<lparr> runs := rs, calls := calls s1 @ [RecalculateRuns event] \<rparr>))
          else power_off_loop recalculate_runs power_off_time rest s)"

text \<open>\<open>instances = self.instance_set.all()\<close>: the instances of the account.\<close>

definition power_off_instances ::
  "(instance_event \<Rightarrow> instance_event list \<Rightarrow> 'f run list \<Rightarrow> 'f run list \<times> py_error option)
    \<Rightarrow> nat \<Rightarrow> timestamp \<Rightarrow> 'f db \<Rightarrow> (py_error \<times> 'f db) + 'f db"
where
  "power_off_instances recalculate_runs acct power_off_time s =
     power_off_loop recalculate_runs power_off_time
       (filter (\<lambda>i. inst_cloud_account i = acct) (instances s)) s"

definition account_enabled :: "nat \<Rightarrow> 'f db \<Rightarrow> bool" where
  "account_enabled acct s =
     (case find (\<lambda>a. acct_id a = acct) (cloud_accounts s) of
        None \<Rightarrow> False
      | Some a \<Rightarrow> is_enabled a)"

text \<open>
  \<open>CloudAccount.disable\<close> (\<open>@transaction.atomic\<close>). The calls
  \<open>self.content_object.disable()\<close> and \<open>notify_sources_application_availability\<close> go
  to code outside the sources; \<open>external\<close> is the exception they raise, if any. A
  raised exception, of these calls or of \<open>_power_off_instances\<close>, leaves the method
  through the atomic block, which rolls the database back: the result \<open>Inl\<close> carries
  no new database.
\<close>

definition disable ::
  "(instance_event \<Rightarrow> instance_event list \<Rightarrow> 'f run list \<Rightarrow> 'f run list \<times> py_error option)
    \<Rightarrow> py_error option \<Rightarrow> nat \<Rightarrow> bool \<Rightarrow> timestamp \<Rightarrow> 'f db \<Rightarrow> py_error + 'f db"
where
  "disable recalculate_runs external acct power_off_instances_flag now s =
     (let s1 = (if account_enabled acct s
                then s\<lparr>cloud_accounts :=
                        map (\<lambda>a. if acct_id a = acct then a\<lparr>is_enabled := False\<rparr> else a)
                          (cloud_accounts s)\<rparr>
                else s)
      in case (if power_off_instances_flag
               then power_off_instances recalculate_runs acct now s1
               else Inr s1) of
           Inl (err, s2) \<Rightarrow> Inl err
         | Inr s2 \<Rightarrow> (case external of Some err \<Rightarrow> Inl err | None \<Rightarrow> Inr s2))"

text \<open>
  \<open>CloudAccount.enable\<close> (\<open>@transaction.atomic\<close>): an exception of the external calls
  is logged, notified and raised again.
\<close>

definition enable :: "py_error option \<Rightarrow> nat \<Rightarrow> timestamp \<Rightarrow> 'f db \<Rightarrow> py_error + 'f db" where
  "enable external acct now s =
     (let s1 = (if \<not> account_enabled acct s
                then s\<lparr>cloud_accounts :=
                        map (\<lambda>a. if acct_id a = acct
                                  then a\<lparr>is_enabled := True, enabled_at := now\<rparr> else a)
                          (cloud_accounts s)\<rparr>
                else s)
      in case external of Some err \<Rightarrow> Inl err | None \<Rightarrow> Inr s1)"

text \<open>
  \<open>instance.machine_image.delete()\<close>: the image row goes, and with it the rows whose
  foreign key to it has \<open>on_delete=CASCADE\<close>. Of the tables modelled these are \<open>Run\<close>
  (\<open>machineimage\<close>) and \<open>Instance\<close> (\<open>machine_image\<close>); the callback deletes an image
  only when no instance row refers to it, so no instance is deleted here.
\<close>

definition machine_image_delete :: "nat \<Rightarrow> 'f db \<Rightarrow> 'f db" where
  "machine_image_delete m s =
     s\<lparr> machine_images := removeAll m (machine_images s),
        runs := filter (\<lambda>r. machineimage r \<noteq> Some m) (runs s) \<rparr>"

text \<open>
  \<open>instance_post_delete_callback\<close>: reading \<open>instance.machine_image\<close> of an image that
  is already deleted raises \<open>MachineImage.DoesNotExist\<close>, which is caught and logged.
\<close>

definition instance_post_delete_callback :: "instance_row \<Rightarrow> 'f db \<Rightarrow> 'f db" where
  "instance_post_delete_callback inst s =
     (case machine_image inst of
        None \<Rightarrow> s
      | Some m \<Rightarrow>
          if m \<notin> set (machine_images s) then s
          else if filter (\<lambda>j. machine_image j = Some m \<and> inst_id j \<noteq> inst_id inst)
                    (instances s) = []
          then machine_image_delete m s
          else s)"

text \<open>
  Deleting an instance: the row goes, the rows of \<open>InstanceEvent\<close> and \<open>Run\<close> whose
  \<open>instance\<close> foreign key (\<open>on_delete=CASCADE\<close>) names it go with it, then the
  \<open>post_delete\<close> signal runs the callback.
\<close>

definition instance_delete :: "nat \<Rightarrow> 'f db \<Rightarrow> 'f db" where
  "instance_delete i s =
     (case find (\<lambda>j. inst_id j = i) (instances s) of
        None \<Rightarrow> s
      | Some inst \<Rightarrow>
          instance_post_delete_callback inst
            (s\<lparr> instances := filter (\<lambda>j. inst_id j \<noteq> i) (instances s),
                events := filter (\<lambda>e. ev_instance e \<noteq> i) (events s),
                runs := filter (\<lambda>r. run_instance r \<noteq> i) (runs s) \<rparr>))"

text \<open>
  Deleting a cloud account, one transaction. The \<open>pre_delete\<close> signal runs
  \<open>cloud_account_pre_delete_callback\<close>, which calls \<open>disable(power_off_instances=False)\<close>
  (so \<open>get_now()\<close> is not reached); an exception of it leaves the database as it
  was. Then the rows go: the account's, those of \<open>Instance\<close> whose \<open>cloud_account\<close>
  foreign key (\<open>on_delete=CASCADE\<close>) names the account, and those of \<open>InstanceEvent\<close>
  and \<open>Run\<close> whose \<open>instance\<close> foreign key names one of these instances. The rows
  are deleted before the \<open>post_delete\<close> signal runs the callback of each deleted
  instance: as the comment in the callback says, the instance objects no longer
  appear to be in the database.
\<close>

definition cloud_account_delete ::
  "(instance_event \<Rightarrow> instance_event list \<Rightarrow> 'f run list \<Rightarrow> 'f run list \<times> py_error option)
    \<Rightarrow> py_error option \<Rightarrow> nat \<Rightarrow> 'f db \<Rightarrow> py_error + 'f db"
where
  "cloud_account_delete recalculate_runs external acct s =
     (case disable recalculate_runs external acct False 0 s of
        Inl err \<Rightarrow> Inl err
      | Inr s1 \<Rightarrow>
          (let deleted = filter (\<lambda>j. inst_cloud_account j = acct) (instances s1);
               ids = map inst_id deleted
           in Inr (fold instance_post_delete_callback deleted
                     (s1\<lparr> cloud_accounts := filter (\<lambda>a. acct_id a \<noteq> acct) (cloud_accounts s1),
                          instances := filter (\<lambda>j. inst_id j \<notin> set ids) (instances s1),
                          events := filter (\<lambda>e. ev_instance e \<notin> set ids) (events s1),
                          runs := filter (\<lambda>r. run_instance r \<notin> set ids) (runs s1) \<rparr>))))"

text \<open>
  The operations above as one type, and the database each leaves behind. \<open>enable\<close>,
  \<open>disable\<close> and the deletion of an account are atomic: a raised exception rolls
  back. \<open>_power_off_instances\<close> is not: when it raises, what it wrote stays.
\<close>

datatype operation =
    Enable "py_error option" nat timestamp
  | Disable "py_error option" nat bool timestamp
  | PowerOffInstances nat timestamp
  | DeleteInstance nat
  | DeleteCloudAccount "py_error option" nat

text \<open>The database an atomic operation started from \<open>s\<close> leaves: \<open>s\<close> itself when it raises.\<close>

definition committed :: "'f db \<Rightarrow> py_error + 'f db \<Rightarrow> 'f db" where
  "committed s r = (case r of Inl err \<Rightarrow> s | Inr s' \<Rightarrow> s')"

text \<open>The database \<open>_power_off_instances\<close> leaves, whether it returns or raises.\<close>

definition db_left :: "(py_error \<times> 'f db) + 'f db \<Rightarrow> 'f db" where
  "db_left r = (case r of Inl (err, s') \<Rightarrow> s' | Inr s' \<Rightarrow> s')"

fun perform ::
  "(instance_event \<Rightarrow> instance_event list \<Rightarrow> 'f run list \<Rightarrow> 'f run list \<times> py_error option)
    \<Rightarrow> operation \<Rightarrow> 'f db \<Rightarrow> 'f db"
where
  "perform rc (Enable external acct now) s = committed s (enable external acct now s)"
| "perform rc (Disable external acct flag now) s =
     committed s (disable rc external acct flag now s)"
| "perform rc (PowerOffInstances acct t) s = db_left (power_off_instances rc acct t s)"
| "perform rc (DeleteInstance i) s = instance_delete i s"
| "perform rc (DeleteCloudAccount external acct) s =
     committed s (cloud_account_delete rc external acct s)"

text \<open>
  What the data model says of an event: the string in its \<open>event_type\<close> is one of the
  three choices, and it carries attributes only if it is a \<open>power_on\<close> or an
  \<open>attribute_change\<close>.
\<close>

definition event_valid :: "instance_event \<Rightarrow> bool" where
  "event_valid e =
     (event_type e \<in> set event_TYPE
      \<and> (attributes e = None \<or> event_type e = power_on \<or> event_type e = attribute_change))"

text \<open>
  Modelled from the spec: \<open>recalculate_runs(event)\<close> of \<open>api.util\<close>, as the spec's
  \<open>Reconcile\<close> of the event's instance, in the shape \<open>power_off_loop\<close> takes it.
\<close>

definition recalculate_runs ::
  "(string \<Rightarrow> ('f \<times> int) option)
    \<Rightarrow> instance_event \<Rightarrow> instance_event list \<Rightarrow> 'f run list \<Rightarrow> 'f run list \<times> py_error option"
where
  "recalculate_runs lookup event evs rs =
     (ReplaceRuns (ev_instance event)
        (replay lookup (ev_instance event) (GetEventHistory (ev_instance event) evs)) rs,
      None)"

section \<open>The catalog refresh of \<open>api/clouds/aws/tasks/maintenance.py\<close>\<close>

text \<open>The lines the task writes to its logger.\<close>

datatype log_entry =
    GettingInformation
  | CouldNotFetch string "string option" "string option"
  | SavingNew string
  | AlreadyExists string
  | FailedGetOrCreate string
  | FailedToSaveRollingBack
  | FinishedSaving

text \<open>
  One element of \<open>page["PriceList"]\<close>, by what
  \<open>json.loads(instance)["product"]["attributes"]\<close> does with it: it raises (a
  \<open>ValueError\<close> for text that is not JSON, a \<open>KeyError\<close> or \<open>TypeError\<close> for JSON of
  another shape), or it gives the attributes dict. The pricing service gives every
  attribute as a string; the dict is the list of its items, read with \<open>map_of\<close>.
\<close>

datatype price_list_entry = Raises py_error | Attributes "(string \<times> string) list"

text \<open>
  The variables of \<open>_fetch_ec2_instance_type_definitions\<close>: the dict \<open>instances\<close>
  (insertion-ordered; \<open>AList.update\<close> replaces the value of a key in place and puts a
  new key last, as a Python dict does), the local \<open>instance_attr\<close>, which keeps its
  value from one iteration to the next and is unbound before the first assignment,
  and the log.
\<close>

record 'f fetch_state =
  fs_instances :: "(string \<times> 'f \<times> int) list"
  instance_attr :: "(string \<times> string) list option"
  fetch_log :: "log_entry list"

text \<open>\<open>s[:-4].replace(",", "")\<close>\<close>

definition memory_text :: "string \<Rightarrow> string" where
  "memory_text m = filter (\<lambda>c. c \<noteq> CHR '','') (take (length m - 4) m)"

text \<open>
  The body of the \<open>try\<close> after the assignment of \<open>instance_attr\<close>. \<open>py_float\<close> and
  \<open>py_int\<close> are Python's \<open>float\<close> and \<open>int\<close> on a string, \<open>None\<close> where they raise
  \<open>ValueError\<close>. A missing \<open>memory\<close> makes \<open>instance_attr.get("memory", 0)\<close> the integer
  0, whose slice raises \<open>TypeError\<close>; a missing \<open>vcpu\<close> gives \<open>int(0)\<close>.
\<close>

definition fetch_try ::
  "(string \<Rightarrow> 'f option) \<Rightarrow> (string \<Rightarrow> int option) \<Rightarrow> (string \<times> string) list
    \<Rightarrow> py_error + (string \<times> 'f \<times> int)"
where
  "fetch_try py_float py_int a =
     (case map_of a ''memory'' of
        None \<Rightarrow> Inl TypeError
      | Some m \<Rightarrow>
          (case py_float (memory_text m) of
             None \<Rightarrow> Inl ValueError
           | Some mem \<Rightarrow>
               (case (case map_of a ''vcpu'' of None \<Rightarrow> Some 0 | Some v \<Rightarrow> py_int v) of
                  None \<Rightarrow> Inl ValueError
                | Some vc \<Rightarrow>
                    (case map_of a ''instanceType'' of
                       None \<Rightarrow> Inl KeyError
                     | Some n \<Rightarrow> Inr (n, mem, vc)))))"

text \<open>
  \<open>except ValueError\<close>: the handler reads \<open>instance_attr["instanceType"]\<close>, so it raises
  itself when \<open>instance_attr\<close> is unbound or has no such key. Any other exception is
  not caught.
\<close>

definition fetch_except :: "py_error \<Rightarrow> 'f fetch_state \<Rightarrow> 'f fetch_state \<times> py_error option" where
  "fetch_except err st =
     (if err = ValueError
      then (case instance_attr st of
              None \<Rightarrow> (st, Some UnboundLocalError)
            | Some a \<Rightarrow>
                (case map_of a ''instanceType'' of
                   None \<Rightarrow> (st, Some KeyError)
                 | Some n \<Rightarrow>
                     (st\<lparr>fetch_log := fetch_log st @
                           [CouldNotFetch n (map_of a ''memory'') (map_of a ''vcpu'')]\<rparr>,
                      None)))
      else (st, Some err))"

definition fetch_entry ::
  "(string \<Rightarrow> 'f option) \<Rightarrow> (string \<Rightarrow> int option) \<Rightarrow> price_list_entry
    \<Rightarrow> 'f fetch_state \<Rightarrow> 'f fetch_state \<times> py_error option"
where
  "fetch_entry py_float py_int entry st =
     (case entry of
        Raises err \<Rightarrow> fetch_except err st
      | Attributes a \<Rightarrow>
          (let st1 = st\<lparr>instance_attr := Some a\<rparr>
           in case fetch_try py_float py_int a of
                Inl err \<Rightarrow> fetch_except err st1
              | Inr (n, mem, vc) \<Rightarrow>
                  (st1\<lparr>fs_instances := AList.update n (mem, vc) (fs_instances st1)\<rparr>, None)))"

text \<open>\<open>for instance in page["PriceList"]\<close>\<close>

fun fetch_page ::
  "(string \<Rightarrow> 'f option) \<Rightarrow> (string \<Rightarrow> int option) \<Rightarrow> price_list_entry list
    \<Rightarrow> 'f fetch_state \<Rightarrow> 'f fetch_state \<times> py_error option"
where
  "fetch_page py_float py_int [] st = (st, None)"
| "fetch_page py_float py_int (entry # rest) st =
     (case fetch_entry py_float py_int entry st of
        (st', Some err) \<Rightarrow> (st', Some err)
      | (st', None) \<Rightarrow> fetch_page py_float py_int rest st')"

text \<open>\<open>for page in page_iterator\<close>\<close>

fun fetch_pages ::
  "(string \<Rightarrow> 'f option) \<Rightarrow> (string \<Rightarrow> int option) \<Rightarrow> price_list_entry list list
    \<Rightarrow> 'f fetch_state \<Rightarrow> 'f fetch_state \<times> py_error option"
where
  "fetch_pages py_float py_int [] st = (st, None)"
| "fetch_pages py_float py_int (page # rest) st =
     (case fetch_page py_float py_int page st of
        (st', Some err) \<Rightarrow> (st', Some err)
      | (st', None) \<Rightarrow> fetch_pages py_float py_int rest st')"

text \<open>
  \<open>_fetch_ec2_instance_type_definitions\<close>, given the pages of the paginator: the final
  variables (the function returns \<open>fs_instances\<close>) and the exception raised, if any.
\<close>

definition fetch_ec2_instance_type_definitions ::
  "(string \<Rightarrow> 'f option) \<Rightarrow> (string \<Rightarrow> int option) \<Rightarrow> price_list_entry list list
    \<Rightarrow> 'f fetch_state \<times> py_error option"
where
  "fetch_ec2_instance_type_definitions py_float py_int pages =
     fetch_pages py_float py_int pages
       \<lparr> fs_instances = [], instance_attr = None, fetch_log = [GettingInformation] \<rparr>"

text \<open>
  The table of \<open>AwsEC2InstanceDefinition\<close> (its class is not among the sources): rows
  of instance type name, memory and vcpu, looked up by name; and the task's log.
\<close>

record 'f definition_store =
  def_table :: "(string \<times> 'f \<times> int) list"
  save_log :: "log_entry list"

text \<open>
  \<open>AwsEC2InstanceDefinition.objects.get_or_create(instance_type=name, defaults=...)\<close>:
  the row of that name if there is exactly one (several make the \<open>get\<close> raise
  \<open>MultipleObjectsReturned\<close>), else a new row. Whether the database accepts the new
  row is not the task's to decide: \<open>insert_error\<close> is the exception the insertion
  raises, if any.
\<close>

definition get_or_create ::
  "(string \<Rightarrow> 'f \<Rightarrow> int \<Rightarrow> py_error option) \<Rightarrow> string \<Rightarrow> 'f \<times> int
    \<Rightarrow> (string \<times> 'f \<times> int) list \<Rightarrow> py_error + ((string \<times> 'f \<times> int) list \<times> bool)"
where
  "get_or_create insert_error name attrs tbl =
     (case filter (\<lambda>row. fst row = name) tbl of
        [] \<Rightarrow>
          (case insert_error name (fst attrs) (snd attrs) of
             Some err \<Rightarrow> Inl err
           | None \<Rightarrow> Inr (tbl @ [(name, attrs)], True))
      | [row] \<Rightarrow> Inr (tbl, False)
      | row # row' # others \<Rightarrow> Inl (OtherError ''MultipleObjectsReturned''))"

text \<open>
  \<open>_save_ec2_instance_type_definitions\<close>: the loop over \<open>definitions.items()\<close>. An
  \<open>IntegrityError\<close> is logged and raised again, any other exception passes through.
  The store is returned as the loop left it, also when it raises.
\<close>

fun save_ec2_instance_type_definitions ::
  "(string \<Rightarrow> 'f \<Rightarrow> int \<Rightarrow> py_error option) \<Rightarrow> (string \<times> 'f \<times> int) list
    \<Rightarrow> 'f definition_store \<Rightarrow> 'f definition_store \<times> py_error option"
where
  "save_ec2_instance_type_definitions insert_error [] st = (st, None)"
| "save_ec2_instance_type_definitions insert_error ((name, attrs) # rest) st =
     (case get_or_create insert_error name attrs (def_table st) of
        Inl err \<Rightarrow>
          (if err = IntegrityError
           then st\<lparr>save_log := save_log st @ [FailedGetOrCreate name]\<rparr>
           else st,
           Some err)
      | Inr (tbl, created) \<Rightarrow>
          save_ec2_instance_type_definitions insert_error rest
            (st\<lparr> def_table := tbl,
                 save_log := save_log st @ [if created then SavingNew name else AlreadyExists name] \<rparr>))"

text \<open>
  \<open>with transaction.atomic():\<close> around a body: when the body raises, the tables are
  as they were on entry (the log is not part of the database).
\<close>

definition transaction_atomic ::
  "('f definition_store \<Rightarrow> 'f definition_store \<times> py_error option)
    \<Rightarrow> 'f definition_store \<Rightarrow> 'f definition_store \<times> py_error option"
where
  "transaction_atomic body st =
     (case body st of
        (st', Some err) \<Rightarrow> (st'\<lparr>def_table := def_table st\<rparr>, Some err)
      | (st', None) \<Rightarrow> (st', None))"

text \<open>
  \<open>repopulate_ec2_instance_mapping\<close>: fetch, then save inside the atomic block, where
  any exception is logged and raised again. An exception of the fetch leaves the task
  before the block.
\<close>

definition repopulate_ec2_instance_mapping ::
  "(string \<Rightarrow> 'f option) \<Rightarrow> (string \<Rightarrow> int option) \<Rightarrow> (string \<Rightarrow> 'f \<Rightarrow> int \<Rightarrow> py_error option)
    \<Rightarrow> price_list_entry list list \<Rightarrow> 'f definition_store
    \<Rightarrow> 'f definition_store \<times> py_error option"
where
  "repopulate_ec2_instance_mapping py_float py_int insert_error pages st =
     (case fetch_ec2_instance_type_definitions py_float py_int pages of
        (fs, Some err) \<Rightarrow> (st\<lparr>save_log := save_log st @ fetch_log fs\<rparr>, Some err)
      | (fs, None) \<Rightarrow>
          (case transaction_atomic
                  (\<lambda>st0. case save_ec2_instance_type_definitions insert_error (fs_instances fs) st0 of
                           (st1, Some err) \<Rightarrow>
                             (st1\<lparr>save_log := save_log st1 @ [FailedToSaveRollingBack]\<rparr>, Some err)
                         | (st1, None) \<Rightarrow> (st1, None))
                  (st\<lparr>save_log := save_log st @ fetch_log fs\<rparr>) of
             (st2, Some err) \<Rightarrow> (st2, Some err)
           | (st2, None) \<Rightarrow> (st2\<lparr>save_log := save_log st2 @ [FinishedSaving]\<rparr>, None)))"

section \<open>Invariants of the replay\<close>

text \<open>
  A Run is closed before \<open>t\<close> when it has an end, not before its start and not after
  \<open>t\<close>; it precedes another when it ends no later than the other starts.
\<close>

definition closed_before :: "timestamp \<Rightarrow> 'f run \<Rightarrow> bool" where
  "closed_before t r = (case end_time r of None \<Rightarrow> False | Some e \<Rightarrow> start_time r \<le> e \<and> e \<le> t)"

definition precedes :: "'f run \<Rightarrow> 'f run \<Rightarrow> bool" where
  "precedes r1 r2 = (case end_time r1 of None \<Rightarrow> False | Some e \<Rightarrow> e \<le> start_time r2)"

definition run_wf :: "'f run \<Rightarrow> bool" where
  "run_wf r = (case end_time r of None \<Rightarrow> True | Some e \<Rightarrow> start_time r \<le> e)"

text \<open>
  The invariant of the replay after the events up to time \<open>t\<close>: the completed Runs
  form a chain, each closed before the start of the open run (before \<open>t\<close> when none is
  open), and the open run started no later than \<open>t\<close>.
\<close>

definition horizon :: "timestamp \<Rightarrow> 'f replay_state \<Rightarrow> timestamp" where
  "horizon t st = (case current_start st of None \<Rightarrow> t | Some s \<Rightarrow> s)"

definition replay_inv :: "timestamp \<Rightarrow> 'f replay_state \<Rightarrow> bool" where
  "replay_inv t st =
     (sorted_wrt precedes (pending_runs st)
      \<and> list_all (closed_before (horizon t st)) (pending_runs st)
      \<and> horizon t st \<le> t)"

text \<open>
  Two replay states, under two catalogs, that agree on everything but the enrichment
  of the Runs completed so far.
\<close>

definition same_control :: "'f replay_state \<Rightarrow> 'g replay_state \<Rightarrow> bool" where
  "same_control st st' =
     (current_profile st = current_profile st' \<and> current_start st = current_start st'
      \<and> map run_interval (pending_runs st) = map run_interval (pending_runs st'))"

text \<open>A Run whose memory and vcpu are what the catalog gives for its profile.\<close>

definition enriched_by :: "(string \<Rightarrow> ('f \<times> int) option) \<Rightarrow> 'f run \<Rightarrow> bool" where
  "enriched_by lookup r =
     (memory r = (case instance_type r of None \<Rightarrow> None | Some n \<Rightarrow> map_option fst (lookup n))
      \<and> vcpu r = (case instance_type r of None \<Rightarrow> None | Some n \<Rightarrow> map_option snd (lookup n)))"

section \<open>Predicates on the effects of the operations\<close>

text \<open>
  The trace that creating each of the events \<open>new\<close> and calling \<open>recalculate_runs\<close>
  on it right after leaves.
\<close>

definition recalc_trace :: "instance_event list \<Rightarrow> effect list" where
  "recalc_trace new = concat (map (\<lambda>e. [EventCreated e, RecalculateRuns e]) new)"

text \<open>The event that \<open>_power_off_instances\<close> creates at time \<open>t\<close>.\<close>

definition forced_power_off :: "timestamp \<Rightarrow> instance_event \<Rightarrow> bool" where
  "forced_power_off t e = (event_type e = power_off \<and> occurred_at e = t \<and> attributes e = None)"

text \<open>
  The instances an operation deletes: the one a \<open>DeleteInstance\<close> names, if it
  exists, and those of the account a \<open>DeleteCloudAccount\<close> names, if the deletion
  goes through.
\<close>

definition deleted_instances :: "operation \<Rightarrow> 'f db \<Rightarrow> nat list" where
  "deleted_instances op s =
     (case op of
        DeleteInstance i \<Rightarrow>
          (case find (\<lambda>j. inst_id j = i) (instances s) of None \<Rightarrow> [] | Some inst \<Rightarrow> [i])
      | DeleteCloudAccount external acct \<Rightarrow>
          (case external of
             Some err \<Rightarrow> []
           | None \<Rightarrow> map inst_id (filter (\<lambda>j. inst_cloud_account j = acct) (instances s)))
      | _ \<Rightarrow> [])"

section \<open>Example data\<close>

text \<open>
  A catalog that knows \<open>m5.large\<close> only, and a database with one account and three
  instances: instance 1 was stopped, started, resized to a profile the catalog does
  not know, and started again (its \<open>power_off\<close> was inserted first); instance 2 ran
  once; instance 3 has no event. Instances 1 and 2 share image 7.
\<close>

definition example_catalog :: "string \<Rightarrow> (real \<times> int) option" where
  "example_catalog n = (if n = ''m5.large'' then Some (8, 2) else None)"

definition example_db :: "real db" where
  "example_db =
     \<lparr> cloud_accounts = [\<lparr>acct_id = 1, is_enabled = True, enabled_at = 0\<rparr>],
       machine_images = [7, 8],
       instances =
         [\<lparr>inst_id = 1, inst_cloud_account = 1, machine_image = Some 7\<rparr>,
          \<lparr>inst_id = 2, inst_cloud_account = 1, machine_image = Some 7\<rparr>,
          \<lparr>inst_id = 3, inst_cloud_account = 1, machine_image = Some 8\<rparr>],
       events =
         [\<lparr>ev_id = 0, ev_instance = 1, event_type = power_off, occurred_at = 30, attributes = None\<rparr>,
          \<lparr>ev_id = 1, ev_instance = 1, event_type = power_on, occurred_at = 0,
            attributes = Some ''m5.large''\<rparr>,
          \<lparr>ev_id = 2, ev_instance = 1, event_type = attribute_change, occurred_at = 20,
            attributes = Some ''m5.xlarge''\<rparr>,
          \<lparr>ev_id = 3, ev_instance = 1, event_type = power_on, occurred_at = 40,
            attributes = Some ''m5.large''\<rparr>,
          \<lparr>ev_id = 4, ev_instance = 2, event_type = power_on, occurred_at = 10,
            attributes = Some ''m5.large''\<rparr>,
          \<lparr>ev_id = 5, ev_instance = 2, event_type = power_off, occurred_at = 15, attributes = None\<rparr>],
       runs = [], next_event_id = 6, calls = [] \<rparr>"

definition example_power_off :: instance_event where
  "example_power_off =
     \<lparr>ev_id = 6, ev_instance = 1, event_type = power_off, occurred_at = 50, attributes = None\<rparr>"

text \<open>
  \<open>float\<close> and \<open>int\<close> on the strings of the example pages, which hold a memory that
  does not parse (\<open>NA\<close>) and one with a thousands separator; a store that already has
  \<open>t2.micro\<close>; a database that refuses the row of \<open>m5.large\<close>.
\<close>

definition example_float :: "string \<Rightarrow> real option" where
  "example_float s =
     (if s = ''1'' then Some 1 else if s = ''8'' then Some 8
      else if s = ''3904'' then Some 3904 else None)"

definition example_int :: "string \<Rightarrow> int option" where
  "example_int s =
     (if s = ''1'' then Some 1 else if s = ''2'' then Some 2
      else if s = ''128'' then Some 128 else None)"

definition example_pages :: "price_list_entry list list" where
  "example_pages =
     [[Attributes [(''instanceType'', ''t2.micro''), (''memory'', ''1 GiB''), (''vcpu'', ''1'')],
       Attributes [(''instanceType'', ''f1.odd''), (''memory'', ''NA''), (''vcpu'', ''2'')]],
      [Attributes [(''instanceType'', ''x1e.32xlarge''), (''memory'', ''3,904 GiB''),
                   (''vcpu'', ''128'')],
       Attributes [(''instanceType'', ''m5.large''), (''memory'', ''8 GiB''), (''vcpu'', ''2'')]]]"

definition example_store :: "real definition_store" where
  "example_store = \<lparr> def_table = [(''t2.micro'', 0.5, 1)], save_log = [] \<rparr>"

definition example_insert_error :: "string \<Rightarrow> real \<Rightarrow> int \<Rightarrow> py_error option" where
  "example_insert_error n m v = (if n = ''m5.large'' then Some IntegrityError else None)"

section \<open>Properties of the Reconciliation Engine\<close>

lemma replay_step_inst:
  "\<forall>r \<in> set (pending_runs st). run_instance r = i \<Longrightarrow>
   \<forall>r \<in> set (pending_runs (replay_step lookup i st ev)). run_instance r = i"
  by (auto simp: replay_step_def emit_run_def split: option.splits if_splits)

lemma foldl_replay_inst:
  "\<forall>r \<in> set (pending_runs st). run_instance r = i \<Longrightarrow>
   \<forall>r \<in> set (pending_runs (foldl (replay_step lookup i) st evs)). run_instance r = i"
proof (induction evs arbitrary: st)
  case Nil
  then show ?case by simp
next
  case (Cons e es)
  show ?case
    unfolding foldl_Cons
    by (rule Cons.IH) (rule replay_step_inst [OF Cons.prems])
qed

lemma replay_run_instance: "r \<in> set (replay lookup i evs) \<Longrightarrow> run_instance r = i"
proof -
  have "\<forall>r \<in> set (pending_runs (foldl (replay_step lookup i) replay_init evs)). run_instance r = i"
    by (rule foldl_replay_inst) (simp add: replay_init_def)
  then show "r \<in> set (replay lookup i evs) \<Longrightarrow> run_instance r = i"
    by (auto simp: replay_def replay_finish_def emit_run_def split: option.splits)
qed

lemma ReplaceRuns_idem:
  assumes "\<forall>r \<in> set new. run_instance r = i"
  shows "ReplaceRuns i new (ReplaceRuns i new rs) = ReplaceRuns i new rs"
proof -
  have "filter (\<lambda>r. run_instance r \<noteq> i) new = []"
    using assms by (simp add: filter_empty_conv)
  then show ?thesis by (simp add: ReplaceRuns_def)
qed

lemma closed_before_mono: "closed_before t r \<Longrightarrow> t \<le> u \<Longrightarrow> closed_before u r"
  by (auto simp: closed_before_def split: option.splits)

lemma list_all_closed_before_mono:
  "list_all (closed_before t) rs \<Longrightarrow> t \<le> u \<Longrightarrow> list_all (closed_before u) rs"
  by (auto simp: list_all_iff intro: closed_before_mono)

lemma closed_before_precedes_emit:
  "closed_before s r \<Longrightarrow> precedes r (emit_run lookup i s e p)"
  by (auto simp: closed_before_def precedes_def emit_run_def split: option.splits)

lemma replay_inv_emit:
  assumes inv: "replay_inv t st" and opn: "current_start st = Some s" and le: "t \<le> u"
  shows "sorted_wrt precedes (pending_runs st @ [emit_run lookup i s (Some u) p])"
    and "list_all (closed_before u) (pending_runs st @ [emit_run lookup i s (Some u) p])"
proof -
  from inv opn have srt: "sorted_wrt precedes (pending_runs st)"
    and cb: "list_all (closed_before s) (pending_runs st)" and "s \<le> t"
    by (simp_all add: replay_inv_def horizon_def)
  from cb have "\<forall>r \<in> set (pending_runs st). precedes r (emit_run lookup i s (Some u) p)"
    by (simp add: list_all_iff closed_before_precedes_emit)
  with srt show "sorted_wrt precedes (pending_runs st @ [emit_run lookup i s (Some u) p])"
    by (simp add: sorted_wrt_append)
  from \<open>s \<le> t\<close> le have "s \<le> u" by simp
  then have "closed_before u (emit_run lookup i s (Some u) p)"
    by (simp add: closed_before_def emit_run_def)
  moreover from cb \<open>s \<le> u\<close> have "list_all (closed_before u) (pending_runs st)"
    by (rule list_all_closed_before_mono)
  ultimately show "list_all (closed_before u) (pending_runs st @ [emit_run lookup i s (Some u) p])"
    by simp
qed

lemma replay_step_inv:
  assumes inv: "replay_inv t st" and le: "t \<le> occurred_at ev"
  shows "replay_inv (occurred_at ev) (replay_step lookup i st ev)"
proof (cases "current_start st")
  case None
  with inv have srt: "sorted_wrt precedes (pending_runs st)"
    and cb: "list_all (closed_before t) (pending_runs st)"
    by (simp_all add: replay_inv_def horizon_def)
  from cb le have cb': "list_all (closed_before (occurred_at ev)) (pending_runs st)"
    by (rule list_all_closed_before_mono)
  from None srt cb' show ?thesis
    by (simp add: replay_step_def replay_inv_def horizon_def)
next
  case (Some s)
  with inv have srt: "sorted_wrt precedes (pending_runs st)"
    and cb: "list_all (closed_before s) (pending_runs st)" and "s \<le> t"
    by (simp_all add: replay_inv_def horizon_def)
  from \<open>s \<le> t\<close> le have "s \<le> occurred_at ev" by simp
  note emit = replay_inv_emit [OF inv Some le, of lookup i "current_profile st"]
  have keep: "replay_inv (occurred_at ev) st"
    using Some srt cb \<open>s \<le> occurred_at ev\<close>
    by (simp add: replay_inv_def horizon_def)
  have close: "replay_inv (occurred_at ev)
      \<lparr> current_profile = None, current_start = None,
        pending_runs = pending_runs st @
          [emit_run lookup i s (Some (occurred_at ev)) (current_profile st)] \<rparr>"
    using emit by (simp add: replay_inv_def horizon_def)
  have reopen: "replay_inv (occurred_at ev)
      \<lparr> current_profile = attributes ev, current_start = Some (occurred_at ev),
        pending_runs = pending_runs st @
          [emit_run lookup i s (Some (occurred_at ev)) (current_profile st)] \<rparr>"
    using emit by (simp add: replay_inv_def horizon_def)
  from Some keep close reopen show ?thesis
    by (simp add: replay_step_def)
qed

lemma foldl_replay_inv:
  "replay_inv t st \<Longrightarrow> sorted (map occurred_at evs) \<Longrightarrow> \<forall>e \<in> set evs. t \<le> occurred_at e
    \<Longrightarrow> \<exists>u. replay_inv u (foldl (replay_step lookup i) st evs)"
proof (induction evs arbitrary: t st)
  case Nil
  then show ?case by auto
next
  case (Cons e es)
  from Cons.prems have "replay_inv (occurred_at e) (replay_step lookup i st e)"
    by (simp add: replay_step_inv)
  moreover from Cons.prems have "sorted (map occurred_at es)"
    and "\<forall>x \<in> set es. occurred_at e \<le> occurred_at x"
    by simp_all
  ultimately show ?case
    unfolding foldl_Cons by (rule Cons.IH)
qed

lemma replay_finish_inv:
  assumes "replay_inv t st"
  shows "sorted_wrt precedes (replay_finish lookup i st) \<and> list_all run_wf (replay_finish lookup i st)"
proof (cases "current_start st")
  case None
  with assms show ?thesis
    by (auto simp: replay_finish_def replay_inv_def list_all_iff closed_before_def run_wf_def
          split: option.splits)
next
  case (Some s)
  with assms have srt: "sorted_wrt precedes (pending_runs st)"
    and cb: "list_all (closed_before s) (pending_runs st)"
    by (simp_all add: replay_inv_def horizon_def)
  from cb have "\<forall>r \<in> set (pending_runs st). precedes r (emit_run lookup i s None (current_profile st))"
    by (simp add: list_all_iff closed_before_precedes_emit)
  moreover from cb have "list_all run_wf (pending_runs st)"
    by (auto simp: list_all_iff closed_before_def run_wf_def split: option.splits)
  moreover have "run_wf (emit_run lookup i s None (current_profile st))"
    by (simp add: run_wf_def emit_run_def)
  ultimately show ?thesis
    using Some srt by (simp add: replay_finish_def sorted_wrt_append)
qed

lemma replay_sorted_events:
  assumes "sorted (map occurred_at evs)"
  shows "sorted_wrt precedes (replay lookup i evs) \<and> list_all run_wf (replay lookup i evs)"
proof (cases evs)
  case Nil
  then show ?thesis
    by (simp add: replay_def replay_finish_def replay_init_def)
next
  case (Cons e es)
  have "replay_inv (occurred_at e) (replay_init :: 'a replay_state)"
    by (simp add: replay_inv_def replay_init_def horizon_def)
  moreover from assms Cons have "\<forall>x \<in> set evs. occurred_at e \<le> occurred_at x"
    by auto
  ultimately obtain u where "replay_inv u (foldl (replay_step lookup i) replay_init evs)"
    using assms foldl_replay_inv by blast
  then show ?thesis
    unfolding replay_def by (rule replay_finish_inv)
qed

lemma sorted_GetEventHistory: "sorted (map occurred_at (GetEventHistory i evs))"
  by (simp add: GetEventHistory_def)

lemma runs_of_Reconcile:
  "runs_of i (Reconcile lookup i s) = replay lookup i (GetEventHistory i (events s))"
proof -
  have "filter (\<lambda>r. run_instance r = i) (replay lookup i (GetEventHistory i (events s)))
        = replay lookup i (GetEventHistory i (events s))"
    by (simp add: replay_run_instance)
  then show ?thesis
    by (simp add: runs_of_def Reconcile_def ReplaceRuns_def)
qed

lemma precedes_not_overlaps: "precedes r1 r2 \<Longrightarrow> \<not> overlaps r1 r2"
  by (auto simp: precedes_def overlaps_def before_end_def split: option.splits)

lemma precedes_start_le: "run_wf r1 \<Longrightarrow> precedes r1 r2 \<Longrightarrow> start_time r1 \<le> start_time r2"
  by (auto simp: precedes_def run_wf_def split: option.splits)

lemma chain_sorted_start:
  "sorted_wrt precedes rs \<Longrightarrow> list_all run_wf rs \<Longrightarrow> sorted (map start_time rs)"
  by (induction rs) (auto simp: precedes_start_le list_all_iff)

lemma chain_open_last:
  assumes "sorted_wrt precedes rs" and "j < length rs" and "end_time (rs ! j) = None"
  shows "Suc j = length rs"
proof (rule ccontr)
  assume "Suc j \<noteq> length rs"
  with assms(2) have "j < Suc j" and "Suc j < length rs" by simp_all
  with assms(1) have "precedes (rs ! j) (rs ! Suc j)"
    by (simp add: sorted_wrt_iff_nth_less)
  with assms(3) show False by (simp add: precedes_def)
qed

lemma chain_one_open:
  "sorted_wrt precedes rs \<Longrightarrow> length (filter (\<lambda>r. end_time r = None) rs) \<le> 1"
proof (induction rs)
  case Nil
  then show ?case by simp
next
  case (Cons r rs)
  show ?case
  proof (cases rs)
    case Nil
    then show ?thesis by simp
  next
    case (Cons r' rs')
    with Cons.prems have "precedes r r'" by simp
    then have "end_time r \<noteq> None" by (auto simp: precedes_def split: option.splits)
    with Cons.IH Cons.prems show ?thesis by auto
  qed
qed

lemmas engine_defs = runs_of_def Reconcile_def ReplaceRuns_def replay_def GetEventHistory_def
  replay_step_def replay_init_def replay_finish_def emit_run_def
  power_on_def power_off_def attribute_change_def

lemma example_runs_1:
  "runs_of 1 (Reconcile example_catalog 1 example_db)
   = [\<lparr>start_time = 0, end_time = Some 20, machineimage = None, run_instance = 1,
        instance_type = Some ''m5.large'', memory = Some 8, vcpu = Some 2\<rparr>,
      \<lparr>start_time = 20, end_time = Some 30, machineimage = None, run_instance = 1,
        instance_type = Some ''m5.xlarge'', memory = None, vcpu = None\<rparr>,
      \<lparr>start_time = 40, end_time = None, machineimage = None, run_instance = 1,
        instance_type = Some ''m5.large'', memory = Some 8, vcpu = Some 2\<rparr>]"
  by (simp add: engine_defs example_db_def example_catalog_def)

text \<open>
  C1 (idempotence). Invoking \<open>Reconcile\<close> for an instance a second time, with no new
  event in between, leaves the whole database, and so the Run Store, exactly as the
  first invocation left it.
\<close>

theorem Reconcile_idempotent:
  "Reconcile lookup i (Reconcile lookup i s) = Reconcile lookup i s"
proof -
  let ?new = "replay lookup i (GetEventHistory i (events s))"
  have "\<forall>r \<in> set ?new. run_instance r = i"
    by (simp add: replay_run_instance)
  then have "ReplaceRuns i ?new (ReplaceRuns i ?new (runs s)) = ReplaceRuns i ?new (runs s)"
    by (rule ReplaceRuns_idem)
  then show ?thesis by (simp add: Reconcile_def)
qed

text \<open>The scenario of the example database: three Runs, and a second pass changes nothing.\<close>

theorem Reconcile_idempotent_witness:
  "Reconcile example_catalog 1 (Reconcile example_catalog 1 example_db)
     = Reconcile example_catalog 1 example_db
   \<and> length (runs_of 1 (Reconcile example_catalog 1 example_db)) = 3"
  using Reconcile_idempotent [of example_catalog 1 example_db] example_runs_1
  by simp

text \<open>
  C2 (non-overlap, order, at most one open Run). After a reconciliation pass for an
  instance, its Runs are in ascending order of \<open>start_time\<close>, no two of them overlap
  (a null \<open>end_time\<close> counting as no upper bound), at most one has a null \<open>end_time\<close>,
  and a Run with a null \<open>end_time\<close> is the last one.
\<close>

theorem Reconcile_runs_disjoint_ordered:
  "let rs = runs_of i (Reconcile lookup i s) in
     sorted (map start_time rs)
     \<and> (\<forall>j k. j < k \<and> k < length rs \<longrightarrow> \<not> overlaps (rs ! j) (rs ! k))
     \<and> length (filter (\<lambda>r. end_time r = None) rs) \<le> 1
     \<and> (\<forall>j. j < length rs \<and> end_time (rs ! j) = None \<longrightarrow> Suc j = length rs)"
proof -
  let ?rs = "replay lookup i (GetEventHistory i (events s))"
  have chain: "sorted_wrt precedes ?rs" and wf: "list_all run_wf ?rs"
    using replay_sorted_events [OF sorted_GetEventHistory] by blast+
  have "sorted (map start_time ?rs)"
    using chain wf by (rule chain_sorted_start)
  moreover have "\<forall>j k. j < k \<and> k < length ?rs \<longrightarrow> \<not> overlaps (?rs ! j) (?rs ! k)"
    using chain by (simp add: sorted_wrt_iff_nth_less precedes_not_overlaps)
  moreover have "length (filter (\<lambda>r. end_time r = None) ?rs) \<le> 1"
    using chain by (rule chain_one_open)
  moreover have "\<forall>j. j < length ?rs \<and> end_time (?rs ! j) = None \<longrightarrow> Suc j = length ?rs"
    using chain chain_open_last by blast
  ultimately show ?thesis
    by (simp add: runs_of_Reconcile Let_def)
qed

text \<open>In the example the three Runs of instance 1 are in order, disjoint, and only the last is open.\<close>

theorem Reconcile_runs_disjoint_ordered_witness:
  "let rs = runs_of 1 (Reconcile example_catalog 1 example_db)
   in length rs = 3 \<and> sorted (map start_time rs)
      \<and> \<not> overlaps (rs ! 0) (rs ! 1) \<and> \<not> overlaps (rs ! 0) (rs ! 2) \<and> \<not> overlaps (rs ! 1) (rs ! 2)
      \<and> length (filter (\<lambda>r. end_time r = None) rs) \<le> 1
      \<and> end_time (rs ! 2) = None \<and> Suc 2 = length rs"
  using Reconcile_runs_disjoint_ordered [of 1 example_catalog example_db]
  unfolding example_runs_1 Let_def
  by (simp add: overlaps_def before_end_def)

lemma run_interval_emit:
  "run_interval (emit_run lookup i s e p) = (s, e, p)"
  by (simp add: run_interval_def emit_run_def)

lemma replay_step_same_control:
  assumes "same_control st st'"
  shows "same_control (replay_step lookup i st ev) (replay_step lookup' i st' ev)"
proof -
  from assms have "(pending_runs st = []) = (pending_runs st' = [])"
    unfolding same_control_def by (metis map_is_Nil_conv)
  with assms show ?thesis
    by (cases "current_start st'")
       (simp_all add: same_control_def replay_step_def run_interval_emit)
qed

lemma foldl_replay_same_control:
  "same_control st st' \<Longrightarrow>
   same_control (foldl (replay_step lookup i) st evs) (foldl (replay_step lookup' i) st' evs)"
  by (induction evs arbitrary: st st') (simp_all add: replay_step_same_control)

lemma replay_intervals:
  "map run_interval (replay lookup i evs) = map run_interval (replay lookup' i evs)"
proof -
  have "same_control (replay_init :: 'a replay_state) (replay_init :: 'b replay_state)"
    by (simp add: same_control_def replay_init_def)
  then have "same_control (foldl (replay_step lookup i) replay_init evs)
               (foldl (replay_step lookup' i) replay_init evs)"
    by (rule foldl_replay_same_control)
  then show ?thesis
    by (auto simp: replay_def replay_finish_def same_control_def run_interval_emit
          split: option.splits)
qed

lemma enriched_by_emit: "enriched_by lookup (emit_run lookup i s e p)"
  by (auto simp: enriched_by_def emit_run_def split: option.splits)

lemma replay_step_enriched:
  "list_all (enriched_by lookup) (pending_runs st) \<Longrightarrow>
   list_all (enriched_by lookup) (pending_runs (replay_step lookup i st ev))"
  by (cases "current_start st") (simp_all add: replay_step_def enriched_by_emit)

lemma foldl_replay_enriched:
  "list_all (enriched_by lookup) (pending_runs st) \<Longrightarrow>
   list_all (enriched_by lookup) (pending_runs (foldl (replay_step lookup i) st evs))"
  by (induction evs arbitrary: st) (simp_all add: replay_step_enriched)

lemma replay_enriched: "list_all (enriched_by lookup) (replay lookup i evs)"
proof -
  have "list_all (enriched_by lookup) (pending_runs (foldl (replay_step lookup i) replay_init evs))"
    by (rule foldl_replay_enriched) (simp add: replay_init_def)
  then show ?thesis
    by (simp add: replay_def replay_finish_def enriched_by_emit split: option.splits)
qed

text \<open>
  C3 (unknown profile). Whatever the Catalog Lookup knows, reconciliation emits the
  same Runs with the same interval boundaries and profile identifiers (so a profile
  identifier the catalog does not know changes no interval and aborts nothing), and
  every Run whose profile identifier is unknown to the catalog has null memory and
  null vcpu.
\<close>

theorem Reconcile_unknown_profile:
  "map run_interval (runs_of i (Reconcile lookup i s))
     = map run_interval (runs_of i (Reconcile lookup' i s))
   \<and> (\<forall>r p. r \<in> set (runs_of i (Reconcile lookup i s)) \<and> instance_type r = Some p
              \<and> lookup p = None
          \<longrightarrow> memory r = None \<and> vcpu r = None)"
proof -
  have "list_all (enriched_by lookup) (runs_of i (Reconcile lookup i s))"
    by (simp add: runs_of_Reconcile replay_enriched)
  then have "\<forall>r p. r \<in> set (runs_of i (Reconcile lookup i s)) \<and> instance_type r = Some p
              \<and> lookup p = None
          \<longrightarrow> memory r = None \<and> vcpu r = None"
    by (auto simp: list_all_iff enriched_by_def)
  moreover have "map run_interval (runs_of i (Reconcile lookup i s))
     = map run_interval (runs_of i (Reconcile lookup' i s))"
    by (simp add: runs_of_Reconcile replay_intervals)
  ultimately show ?thesis by blast
qed

text \<open>In the example the Run of the unknown profile \<open>m5.xlarge\<close> keeps its interval, with null memory and vcpu.\<close>

theorem Reconcile_unknown_profile_witness:
  "let rs = runs_of 1 (Reconcile example_catalog 1 example_db)
   in map run_interval rs = map run_interval (runs_of 1 (Reconcile (\<lambda>n. Some (16 :: real, 4)) 1 example_db))
      \<and> rs ! 1 \<in> set rs \<and> instance_type (rs ! 1) = Some ''m5.xlarge''
      \<and> example_catalog ''m5.xlarge'' = None
      \<and> run_interval (rs ! 1) = (20, Some 30, Some ''m5.xlarge'')
      \<and> memory (rs ! 1) = None \<and> vcpu (rs ! 1) = None"
  using Reconcile_unknown_profile [of 1 example_catalog example_db "\<lambda>n. Some (16 :: real, 4)"]
  unfolding example_runs_1 Let_def
  by (simp add: run_interval_def example_catalog_def)

section \<open>Properties of the operations of \<open>api/models.py\<close>\<close>

lemma recalc_trace_append [simp]: "recalc_trace (xs @ ys) = recalc_trace xs @ recalc_trace ys"
  by (simp add: recalc_trace_def)

lemma power_off_loop_effects:
  "\<exists>new. events (db_left (power_off_loop rc t insts s)) = events s @ new
         \<and> calls (db_left (power_off_loop rc t insts s)) = calls s @ recalc_trace new
         \<and> list_all (forced_power_off t) new
         \<and> instances (db_left (power_off_loop rc t insts s)) = instances s"
proof (induction insts arbitrary: s)
  case Nil
  have "events s = events s @ [] \<and> calls s = calls s @ recalc_trace []
      \<and> list_all (forced_power_off t) [] \<and> instances s = instances s"
    by (simp add: recalc_trace_def)
  then show ?case by (simp add: db_left_def)
next
  case (Cons inst rest)
  show ?case
  proof (cases "last_event (inst_id inst) (events s)")
    case None
    with Cons.IH [of s] show ?thesis by simp
  next
    case (Some le)
    show ?thesis
    proof (cases "event_type le = power_off")
      case True
      with Some Cons.IH [of s] show ?thesis by simp
    next
      case False
      define event where "event = \<lparr> ev_id = next_event_id s, ev_instance = inst_id inst,
        event_type = power_off, occurred_at = t, attributes = None \<rparr>"
      define s1 where "s1 = s\<lparr> events := events s @ [event],
        next_event_id := Suc (next_event_id s), calls := calls s @ [EventCreated event] \<rparr>"
      obtain rs r where rc: "rc event (events s1) (runs s1) = (rs, r)"
        by (cases "rc event (events s1) (runs s1)")
      define s2 where "s2 = s1\<lparr> runs := rs, calls := calls s1 @ [RecalculateRuns event] \<rparr>"
      have s2: "events s2 = events s @ [event]" "calls s2 = calls s @ recalc_trace [event]"
        "instances s2 = instances s"
        by (simp_all add: s2_def s1_def recalc_trace_def)
      have fpo: "forced_power_off t event"
        by (simp add: forced_power_off_def event_def)
      have step: "power_off_loop rc t (inst # rest) s =
          (case r of Some err \<Rightarrow> Inl (err, s2) | None \<Rightarrow> power_off_loop rc t rest s2)"
        using Some False rc
        by (simp add: Let_def event_def [symmetric] s1_def s2_def split: option.splits)
      show ?thesis
      proof (cases r)
        case (Some err)
        with step have "db_left (power_off_loop rc t (inst # rest) s) = s2"
          by (simp add: db_left_def)
        with s2 fpo have "events (db_left (power_off_loop rc t (inst # rest) s)) = events s @ [event]
            \<and> calls (db_left (power_off_loop rc t (inst # rest) s)) = calls s @ recalc_trace [event]
            \<and> list_all (forced_power_off t) [event]
            \<and> instances (db_left (power_off_loop rc t (inst # rest) s)) = instances s"
          by simp
        then show ?thesis by blast
      next
        case None
        with step have left: "db_left (power_off_loop rc t (inst # rest) s)
            = db_left (power_off_loop rc t rest s2)"
          by simp
        from Cons.IH [of s2] obtain new where
          new: "events (db_left (power_off_loop rc t rest s2)) = events s2 @ new"
               "calls (db_left (power_off_loop rc t rest s2)) = calls s2 @ recalc_trace new"
               "list_all (forced_power_off t) new"
               "instances (db_left (power_off_loop rc t rest s2)) = instances s2"
          by blast
        with s2 fpo left
        have "events (db_left (power_off_loop rc t (inst # rest) s)) = events s @ (event # new)
            \<and> calls (db_left (power_off_loop rc t (inst # rest) s))
                = calls s @ recalc_trace (event # new)
            \<and> list_all (forced_power_off t) (event # new)
            \<and> instances (db_left (power_off_loop rc t (inst # rest) s)) = instances s"
          by (simp add: recalc_trace_def)
        then show ?thesis by blast
      qed
    qed
  qed
qed

lemma power_off_instances_effects:
  "\<exists>new. events (db_left (power_off_instances rc acct t s)) = events s @ new
         \<and> calls (db_left (power_off_instances rc acct t s)) = calls s @ recalc_trace new
         \<and> list_all (forced_power_off t) new
         \<and> instances (db_left (power_off_instances rc acct t s)) = instances s"
  unfolding power_off_instances_def by (rule power_off_loop_effects)

lemma disable_effects:
  assumes "disable rc external acct flag now s = Inr s'"
  shows "\<exists>new. events s' = events s @ new \<and> calls s' = calls s @ recalc_trace new
           \<and> list_all (forced_power_off now) new \<and> instances s' = instances s"
proof -
  define s1 where "s1 = (if account_enabled acct s
                then s\<lparr>cloud_accounts :=
                        map (\<lambda>a. if acct_id a = acct then a\<lparr>is_enabled := False\<rparr> else a)
                          (cloud_accounts s)\<rparr>
                else s)"
  have s1: "events s1 = events s" "calls s1 = calls s" "instances s1 = instances s"
    by (simp_all add: s1_def)
  show ?thesis
  proof (cases flag)
    case True
    with assms have "power_off_instances rc acct now s1 = Inr s'"
      by (auto simp: disable_def Let_def s1_def split: sum.splits option.splits)
    then have "db_left (power_off_instances rc acct now s1) = s'"
      by (simp add: db_left_def)
    with power_off_instances_effects [of rc acct now s1] s1
    show ?thesis by auto
  next
    case False
    with assms have "s' = s1"
      by (auto simp: disable_def Let_def s1_def split: sum.splits option.splits)
    with s1 have "events s' = events s @ [] \<and> calls s' = calls s @ recalc_trace []
        \<and> list_all (forced_power_off now) [] \<and> instances s' = instances s"
      by (simp add: recalc_trace_def)
    then show ?thesis by blast
  qed
qed

text \<open>
  C4 (recalculation after every append). When \<open>_power_off_instances\<close>, or \<open>disable\<close>
  which calls it, returns, the events it appended and the calls it made are in
  step: each event it created, a \<open>power_off\<close> at the given time, is followed at once,
  before the next instance is looked at and before the method returns, by the call
  of \<open>recalculate_runs\<close> on that event.
\<close>

theorem power_off_instances_recalculates:
  assumes "power_off_instances rc acct t s = Inr s'
           \<or> disable rc external acct flag t s = Inr s'"
  shows "\<exists>new. events s' = events s @ new \<and> calls s' = calls s @ recalc_trace new
           \<and> list_all (forced_power_off t) new"
  using assms
proof
  assume "power_off_instances rc acct t s = Inr s'"
  then have "db_left (power_off_instances rc acct t s) = s'"
    by (simp add: db_left_def)
  with power_off_instances_effects [of rc acct t s] show ?thesis by auto
next
  assume "disable rc external acct flag t s = Inr s'"
  from disable_effects [OF this] show ?thesis by blast
qed

lemmas models_defs = power_off_instances_def last_event_def recalculate_runs_def
  ReplaceRuns_def replay_def GetEventHistory_def replay_step_def replay_init_def
  replay_finish_def emit_run_def power_on_def power_off_def attribute_change_def

lemma example_power_off_result:
  "\<exists>s'. power_off_instances (recalculate_runs example_catalog) 1 50 example_db = Inr s'
      \<and> events s' = events example_db @ [example_power_off]
      \<and> calls s' = [EventCreated example_power_off, RecalculateRuns example_power_off]"
  by (simp add: models_defs example_db_def example_catalog_def example_power_off_def Let_def)

text \<open>In the example only instance 1 is running: one \<open>power_off\<close> is created and recalculated.\<close>

theorem power_off_instances_recalculates_witness:
  "\<exists>s'. power_off_instances (recalculate_runs example_catalog) 1 50 example_db = Inr s'
      \<and> events s' = events example_db @ [example_power_off]
      \<and> calls s' = calls example_db @ recalc_trace [example_power_off]
      \<and> forced_power_off 50 example_power_off"
proof -
  from example_power_off_result obtain s' where
    r: "power_off_instances (recalculate_runs example_catalog) 1 50 example_db = Inr s'"
    and e: "events s' = events example_db @ [example_power_off]"
    by blast
  from r have "power_off_instances (recalculate_runs example_catalog) 1 50 example_db = Inr s'
      \<or> disable (recalculate_runs example_catalog) None 1 True 50 example_db = Inr s'"
    by simp
  from power_off_instances_recalculates [OF this] e
  have "calls s' = calls example_db @ recalc_trace [example_power_off]
      \<and> forced_power_off 50 example_power_off"
    by simp
  with r e show ?thesis by blast
qed

lemma disable_events:
  "\<exists>new. events (committed s (disable rc external acct flag now s)) = events s @ new
         \<and> list_all (forced_power_off now) new
         \<and> instances (committed s (disable rc external acct flag now s)) = instances s"
proof (cases "disable rc external acct flag now s")
  case (Inl err)
  then show ?thesis by (simp add: committed_def)
next
  case (Inr s')
  from disable_effects [OF Inr] Inr show ?thesis
    by (auto simp: committed_def)
qed

lemma enable_events:
  "events (committed s (enable external acct now s)) = events s
   \<and> instances (committed s (enable external acct now s)) = instances s"
  by (simp add: enable_def committed_def Let_def split: option.splits)

lemma callback_events:
  "events (instance_post_delete_callback inst s) = events s
   \<and> instances (instance_post_delete_callback inst s) = instances s"
  by (simp add: instance_post_delete_callback_def machine_image_delete_def split: option.splits)

lemma fold_callback_events:
  "events (fold instance_post_delete_callback insts s) = events s
   \<and> instances (fold instance_post_delete_callback insts s) = instances s"
  by (induction insts arbitrary: s) (simp_all add: callback_events)

lemma instance_delete_events:
  "events (instance_delete i s) =
     filter (\<lambda>e. ev_instance e \<notin> set (deleted_instances (DeleteInstance i) s)) (events s)
   \<and> instances (instance_delete i s) =
     filter (\<lambda>j. inst_id j \<notin> set (deleted_instances (DeleteInstance i) s)) (instances s)"
  by (simp add: instance_delete_def callback_events deleted_instances_def split: option.splits)

lemma disable_without_power_off:
  "disable rc external acct False now s = Inr s' \<Longrightarrow>
   external = None \<and> events s' = events s \<and> instances s' = instances s"
  by (auto simp: disable_def Let_def split: option.splits if_splits)

lemma disable_without_power_off_raises:
  "disable rc external acct False now s = Inl err \<Longrightarrow> external = Some err"
  by (auto simp: disable_def Let_def split: option.splits if_splits)

lemma cloud_account_delete_events:
  "events (committed s (cloud_account_delete rc external acct s)) =
     filter (\<lambda>e. ev_instance e \<notin> set (deleted_instances (DeleteCloudAccount external acct) s))
       (events s)
   \<and> instances (committed s (cloud_account_delete rc external acct s)) =
     filter (\<lambda>j. inst_id j \<notin> set (deleted_instances (DeleteCloudAccount external acct) s))
       (instances s)"
proof (cases "disable rc external acct False 0 s")
  case (Inl err)
  then have "external = Some err" by (rule disable_without_power_off_raises)
  with Inl show ?thesis
    by (simp add: cloud_account_delete_def committed_def deleted_instances_def)
next
  case (Inr s1)
  from disable_without_power_off [OF Inr]
  have "external = None" and "events s1 = events s" and "instances s1 = instances s"
    by simp_all
  with Inr show ?thesis
    by (simp add: cloud_account_delete_def committed_def deleted_instances_def Let_def
          fold_callback_events)
qed

lemma perform_events:
  "\<exists>new. events (perform rc op s) =
           filter (\<lambda>e. ev_instance e \<notin> set (deleted_instances op s)) (events s) @ new
         \<and> list_all (\<lambda>e. event_type e = power_off \<and> attributes e = None) new
         \<and> instances (perform rc op s) =
             filter (\<lambda>j. inst_id j \<notin> set (deleted_instances op s)) (instances s)"
proof (cases op)
  case (Enable external acct now)
  then have "events (perform rc op s) = events s @ []
      \<and> list_all (\<lambda>e. event_type e = power_off \<and> attributes e = None) []
      \<and> instances (perform rc op s) = instances s"
    by (simp add: enable_events)
  with Enable show ?thesis
    by (auto simp: deleted_instances_def)
next
  case (Disable external acct flag now)
  with disable_events [of s rc external acct flag now] show ?thesis
    by (auto simp: deleted_instances_def forced_power_off_def list_all_iff)
next
  case (PowerOffInstances acct t)
  with power_off_instances_effects [of rc acct t s] show ?thesis
    by (auto simp: deleted_instances_def forced_power_off_def list_all_iff)
next
  case (DeleteInstance i)
  with instance_delete_events [of i s]
  have "events (perform rc op s) =
           filter (\<lambda>e. ev_instance e \<notin> set (deleted_instances op s)) (events s) @ []
      \<and> list_all (\<lambda>e. event_type e = power_off \<and> attributes e = None) []
      \<and> instances (perform rc op s) =
             filter (\<lambda>j. inst_id j \<notin> set (deleted_instances op s)) (instances s)"
    by simp
  then show ?thesis by blast
next
  case (DeleteCloudAccount external acct)
  with cloud_account_delete_events [of s rc external acct]
  have "events (perform rc op s) =
           filter (\<lambda>e. ev_instance e \<notin> set (deleted_instances op s)) (events s) @ []
      \<and> list_all (\<lambda>e. event_type e = power_off \<and> attributes e = None) []
      \<and> instances (perform rc op s) =
             filter (\<lambda>j. inst_id j \<notin> set (deleted_instances op s)) (instances s)"
    by simp
  then show ?thesis by blast
qed

text \<open>
  C5 (events are immutable). After any of the operations (\<open>enable\<close>, \<open>disable\<close>,
  \<open>_power_off_instances\<close>, also when it raises and leaves its writes behind, deleting
  an instance, deleting an account) the event table is the old one, every row as it
  was and in the same order, without the events of the instances the operation
  deleted and followed by the new events; and the instances it deleted are gone from
  the instance table. No existing event is changed, and an event disappears only
  with its instance.
\<close>

theorem events_never_mutated:
  "\<exists>new. events (perform rc op s) =
           filter (\<lambda>e. ev_instance e \<notin> set (deleted_instances op s)) (events s) @ new
         \<and> instances (perform rc op s) =
             filter (\<lambda>j. inst_id j \<notin> set (deleted_instances op s)) (instances s)"
  using perform_events [of rc op s] by blast

text \<open>
  In the example deleting instance 2 removes exactly its events, deleting the account
  removes all events with all instances, and a \<open>_power_off_instances\<close> whose
  \<open>recalculate_runs\<close> raises keeps every old event and the one it created.
\<close>

theorem events_never_mutated_witness:
  "events (perform (recalculate_runs example_catalog) (DeleteInstance 2) example_db)
     = filter (\<lambda>e. ev_instance e \<noteq> 2) (events example_db)
   \<and> map inst_id (instances (perform (recalculate_runs example_catalog) (DeleteInstance 2) example_db))
     = [1, 3]
   \<and> events (perform (recalculate_runs example_catalog) (DeleteCloudAccount None 1) example_db) = []
   \<and> instances (perform (recalculate_runs example_catalog) (DeleteCloudAccount None 1) example_db) = []
   \<and> events (perform (\<lambda>e evs rs. (rs, Some (OtherError ''recalculate'')))
               (PowerOffInstances 1 50) example_db)
     = events example_db @ [example_power_off]"
proof -
  let ?rc = "recalculate_runs example_catalog"
  have d2: "deleted_instances (DeleteInstance 2) example_db = [2]"
    by (simp add: deleted_instances_def example_db_def)
  have da: "deleted_instances (DeleteCloudAccount None 1) example_db = [1, 2, 3]"
    by (simp add: deleted_instances_def example_db_def)
  have i2: "map inst_id (filter (\<lambda>j. inst_id j \<notin> set [2]) (instances example_db)) = [1, 3]"
    by (simp add: example_db_def)
  have ea: "filter (\<lambda>e. ev_instance e \<notin> set [1, 2, 3]) (events example_db) = []"
    by (simp add: example_db_def)
  have ia: "filter (\<lambda>j. inst_id j \<notin> set [1, 2, 3]) (instances example_db) = []"
    by (simp add: example_db_def)
  from events_never_mutated [of ?rc "DeleteInstance 2" example_db, unfolded d2]
  have "instances (perform ?rc (DeleteInstance 2) example_db)
          = filter (\<lambda>j. inst_id j \<notin> set [2]) (instances example_db)"
    by blast
  with i2 have 1: "map inst_id (instances (perform ?rc (DeleteInstance 2) example_db)) = [1, 3]"
    by simp
  from events_never_mutated [of ?rc "DeleteCloudAccount None 1" example_db, unfolded da ia]
  have 2: "instances (perform ?rc (DeleteCloudAccount None 1) example_db) = []"
    by blast
  from instance_delete_events [of 2 example_db, unfolded d2]
  have 3: "events (perform ?rc (DeleteInstance 2) example_db)
          = filter (\<lambda>e. ev_instance e \<noteq> 2) (events example_db)"
    by simp
  from cloud_account_delete_events [of example_db ?rc None 1, unfolded da ea]
  have 4: "events (perform ?rc (DeleteCloudAccount None 1) example_db) = []"
    by simp
  have 5: "events (perform (\<lambda>e evs rs. (rs, Some (OtherError ''recalculate'')))
               (PowerOffInstances 1 50) example_db)
     = events example_db @ [example_power_off]"
    by (simp add: power_off_instances_def last_event_def db_left_def example_db_def
          example_power_off_def power_on_def power_off_def attribute_change_def Let_def)
  from 1 2 3 4 5 show ?thesis by blast
qed

text \<open>
  C6 (event types and attributes). The \<open>event_type\<close> of an event is one of the three
  strings \<open>power_on\<close>, \<open>power_off\<close>, \<open>attribute_change\<close>, and only a \<open>power_on\<close> or an
  \<open>attribute_change\<close> carries attributes: if this holds of every event in the table,
  it holds of every event after any of the operations, the events they create
  included.
\<close>

theorem event_valid_preserved:
  assumes "list_all event_valid (events s)"
  shows "list_all event_valid (events (perform rc op s))"
proof -
  from perform_events [of rc op s] obtain new where
    ev: "events (perform rc op s) =
           filter (\<lambda>e. ev_instance e \<notin> set (deleted_instances op s)) (events s) @ new"
    and new: "list_all (\<lambda>e. event_type e = power_off \<and> attributes e = None) new"
    by blast
  from new have "list_all event_valid new"
    by (simp add: list_all_iff event_valid_def event_TYPE_def)
  moreover from assms
  have "list_all event_valid
          (filter (\<lambda>e. ev_instance e \<notin> set (deleted_instances op s)) (events s))"
    by (simp add: list_all_iff)
  ultimately show ?thesis by (simp add: ev)
qed

text \<open>
  The events of the example are valid, and so are the seven after the account's
  instances are powered off; an event with another string for its type is not.
\<close>

theorem event_valid_preserved_witness:
  "list_all event_valid (events example_db)
   \<and> list_all event_valid
        (events (perform (recalculate_runs example_catalog) (PowerOffInstances 1 50) example_db))
   \<and> length (events (perform (recalculate_runs example_catalog) (PowerOffInstances 1 50) example_db)) = 7
   \<and> \<not> event_valid (example_power_off\<lparr>event_type := ''rebooted''\<rparr>)
   \<and> \<not> event_valid (example_power_off\<lparr>attributes := Some ''m5.large''\<rparr>)"
proof -
  have v: "list_all event_valid (events example_db)"
    by (simp add: example_db_def event_valid_def event_TYPE_def
          power_on_def power_off_def attribute_change_def)
  from example_power_off_result
  have "length (events (perform (recalculate_runs example_catalog) (PowerOffInstances 1 50) example_db)) = 7"
    by (auto simp: db_left_def example_db_def)
  moreover have "\<not> event_valid (example_power_off\<lparr>event_type := ''rebooted''\<rparr>)
      \<and> \<not> event_valid (example_power_off\<lparr>attributes := Some ''m5.large''\<rparr>)"
    by (simp add: event_valid_def event_TYPE_def example_power_off_def
          power_on_def power_off_def attribute_change_def)
  ultimately show ?thesis
    using v event_valid_preserved [OF v, of "recalculate_runs example_catalog" "PowerOffInstances 1 50"]
    by blast
qed

text \<open>
  C7 as amended (cascade of an instance's deletion). Deleting an instance deletes
  its events, by the cascade of their foreign key; the post-delete callback deletes
  its machine image only if it has one and no other instance uses that image, and
  keeps the image otherwise.
\<close>

theorem instance_delete_cascade:
  assumes "find (\<lambda>j. inst_id j = i) (instances s) = Some inst"
  shows "events (instance_delete i s) = filter (\<lambda>e. ev_instance e \<noteq> i) (events s)
     \<and> machine_images (instance_delete i s) =
         (case machine_image inst of
            None \<Rightarrow> machine_images s
          | Some m \<Rightarrow>
              if filter (\<lambda>j. machine_image j = Some m \<and> inst_id j \<noteq> i) (instances s) = []
              then removeAll m (machine_images s)
              else machine_images s)"
proof -
  from assms have id: "inst_id inst = i"
    by (auto simp: find_Some_iff)
  have flt: "filter (\<lambda>j. inst_id j \<noteq> i \<and> machine_image j = Some m \<and> inst_id j \<noteq> i) (instances s)
             = filter (\<lambda>j. machine_image j = Some m \<and> inst_id j \<noteq> i) (instances s)" for m
    by (rule filter_cong) auto
  have rm: "m \<notin> set (machine_images s) \<Longrightarrow> removeAll m (machine_images s) = machine_images s" for m
    by simp
  show ?thesis
    using assms
    by (auto simp: instance_delete_def instance_post_delete_callback_def machine_image_delete_def
          id flt split: option.splits)
qed

text \<open>In the example instance 3 is the only user of image 8, which goes with it; image 7 stays when instance 1 goes.\<close>

theorem instance_delete_cascade_witness:
  "find (\<lambda>j. inst_id j = 3) (instances example_db)
     = Some \<lparr>inst_id = 3, inst_cloud_account = 1, machine_image = Some 8\<rparr>
   \<and> events (instance_delete 3 example_db) = events example_db
   \<and> machine_images (instance_delete 3 example_db) = [7]
   \<and> events (instance_delete 1 example_db) = filter (\<lambda>e. ev_instance e = 2) (events example_db)
   \<and> machine_images (instance_delete 1 example_db) = [7, 8]"
proof -
  have f3: "find (\<lambda>j. inst_id j = 3) (instances example_db)
     = Some \<lparr>inst_id = 3, inst_cloud_account = 1, machine_image = Some 8\<rparr>"
    by (simp add: example_db_def)
  have f1: "find (\<lambda>j. inst_id j = 1) (instances example_db)
     = Some \<lparr>inst_id = 1, inst_cloud_account = 1, machine_image = Some 7\<rparr>"
    by (simp add: example_db_def)
  from instance_delete_cascade [OF f3] instance_delete_cascade [OF f1] f3
  show ?thesis by (simp add: example_db_def)
qed

text \<open>
  C7 as stated fails: instance 1 of the example has machine image 7, and after the
  instance is deleted the image is still there, because instance 2 uses it.
\<close>

theorem instance_delete_keeps_shared_image:
  "find (\<lambda>j. inst_id j = 1) (instances example_db)
     = Some \<lparr>inst_id = 1, inst_cloud_account = 1, machine_image = Some 7\<rparr>
   \<and> 7 \<in> set (machine_images example_db)
   \<and> 7 \<in> set (machine_images (instance_delete 1 example_db))"
  by (simp add: instance_delete_def instance_post_delete_callback_def example_db_def)

section \<open>Properties of the catalog refresh\<close>

lemma get_or_create_table:
  assumes "get_or_create ie name attrs tbl = Inr (tbl', created)"
  shows "\<exists>new. tbl' = tbl @ new \<and> list_all (\<lambda>row. map_of tbl (fst row) = None) new"
proof (cases "filter (\<lambda>row. fst row = name) tbl")
  case Nil
  then have "name \<notin> fst ` set tbl"
    by (auto simp: filter_empty_conv)
  then have "map_of tbl name = None"
    by (simp add: map_of_eq_None_iff)
  with assms Nil show ?thesis
    by (auto simp: get_or_create_def split: option.splits)
next
  case (Cons row rest)
  with assms show ?thesis
    by (cases rest) (auto simp: get_or_create_def)
qed

lemma map_of_append_None:
  "map_of (xs @ ys) k = None \<Longrightarrow> map_of xs k = None"
  by (simp add: map_add_def split: option.splits)

lemma save_table:
  "save_ec2_instance_type_definitions ie defs st = (st', r) \<Longrightarrow>
   \<exists>new. def_table st' = def_table st @ new
         \<and> list_all (\<lambda>row. map_of (def_table st) (fst row) = None) new"
proof (induction defs arbitrary: st)
  case Nil
  then show ?case by auto
next
  case (Cons d rest)
  obtain name attrs where d: "d = (name, attrs)" by (cases d)
  show ?case
  proof (cases "get_or_create ie name attrs (def_table st)")
    case (Inl err)
    with Cons.prems d show ?thesis by (auto split: if_splits)
  next
    case (Inr res)
    obtain tbl created where res: "res = (tbl, created)" by (cases res)
    from get_or_create_table [OF Inr [unfolded res]] obtain new1 where
      new1: "tbl = def_table st @ new1"
            "list_all (\<lambda>row. map_of (def_table st) (fst row) = None) new1"
      by blast
    let ?st1 = "st\<lparr> def_table := tbl,
                 save_log := save_log st @ [if created then SavingNew name else AlreadyExists name] \<rparr>"
    from Cons.prems d Inr res
    have "save_ec2_instance_type_definitions ie rest ?st1 = (st', r)" by simp
    from Cons.IH [OF this] obtain new2 where
      new2: "def_table st' = tbl @ new2" "list_all (\<lambda>row. map_of tbl (fst row) = None) new2"
      by auto
    from new2(2) new1(1) have "list_all (\<lambda>row. map_of (def_table st) (fst row) = None) new2"
      by (auto simp: list_all_iff dest: map_of_append_None)
    with new1 new2(1) have "def_table st' = def_table st @ (new1 @ new2)
        \<and> list_all (\<lambda>row. map_of (def_table st) (fst row) = None) (new1 @ new2)"
      by simp
    then show ?thesis by blast
  qed
qed

lemma repopulate_table:
  "\<exists>new. def_table (fst (repopulate_ec2_instance_mapping py_float py_int ie pages st)) = def_table st @ new
         \<and> list_all (\<lambda>row. map_of (def_table st) (fst row) = None) new"
proof (cases "fetch_ec2_instance_type_definitions py_float py_int pages")
  case (Pair fs r)
  show ?thesis
  proof (cases r)
    case (Some err)
    with Pair show ?thesis by (simp add: repopulate_ec2_instance_mapping_def)
  next
    case None
    let ?st0 = "st\<lparr>save_log := save_log st @ fetch_log fs\<rparr>"
    obtain st1 r1 where sv: "save_ec2_instance_type_definitions ie (fs_instances fs) ?st0 = (st1, r1)"
      by (cases "save_ec2_instance_type_definitions ie (fs_instances fs) ?st0")
    from save_table [OF sv] obtain new where
      new: "def_table st1 = def_table st @ new"
           "list_all (\<lambda>row. map_of (def_table st) (fst row) = None) new"
      by auto
    show ?thesis
    proof (cases r1)
      case None
      with Pair \<open>r = None\<close> sv new show ?thesis
        by (simp add: repopulate_ec2_instance_mapping_def transaction_atomic_def)
    next
      case (Some err)
      with Pair \<open>r = None\<close> sv show ?thesis
        by (simp add: repopulate_ec2_instance_mapping_def transaction_atomic_def)
    qed
  qed
qed

lemmas fetch_defs = fetch_ec2_instance_type_definitions_def fetch_entry_def fetch_try_def
  fetch_except_def memory_text_def example_float_def example_int_def

lemma example_fetch:
  "fetch_ec2_instance_type_definitions example_float example_int example_pages =
     (\<lparr> fs_instances = [(''t2.micro'', 1, 1), (''x1e.32xlarge'', 3904, 128), (''m5.large'', 8, 2)],
        instance_attr = Some [(''instanceType'', ''m5.large''), (''memory'', ''8 GiB''), (''vcpu'', ''2'')],
        fetch_log = [GettingInformation, CouldNotFetch ''f1.odd'' (Some ''NA'') (Some ''2'')] \<rparr>,
      None)"
  by (simp add: fetch_defs example_pages_def)

text \<open>
  C8 (the refresh never overwrites). After \<open>repopulate_ec2_instance_mapping\<close>, whether
  it returns or raises, the definition table is the old table followed by new rows,
  each for a name the old table did not have; so every name that was present keeps
  its memory and vcpu.
\<close>

theorem repopulate_never_overwrites:
  "(\<exists>new. def_table (fst (repopulate_ec2_instance_mapping py_float py_int ie pages st)) = def_table st @ new
          \<and> list_all (\<lambda>row. map_of (def_table st) (fst row) = None) new)
   \<and> (\<forall>name row. map_of (def_table st) name = Some row \<longrightarrow>
         map_of (def_table (fst (repopulate_ec2_instance_mapping py_float py_int ie pages st))) name = Some row)"
proof -
  from repopulate_table [of py_float py_int ie pages st] obtain new where
    new: "def_table (fst (repopulate_ec2_instance_mapping py_float py_int ie pages st)) = def_table st @ new"
         "list_all (\<lambda>row. map_of (def_table st) (fst row) = None) new"
    by blast
  have "\<forall>name row. map_of (def_table st) name = Some row \<longrightarrow>
         map_of (def_table (fst (repopulate_ec2_instance_mapping py_float py_int ie pages st))) name = Some row"
    by (simp add: new(1) map_add_def)
  with new show ?thesis by blast
qed

text \<open>In the example \<open>t2.micro\<close> keeps its memory of 0.5 although the pricing page says 1, and two rows are new.\<close>

theorem repopulate_never_overwrites_witness:
  "map_of (def_table example_store) ''t2.micro'' = Some (0.5, 1)
   \<and> def_table (fst (repopulate_ec2_instance_mapping example_float example_int
                        (\<lambda>n m v. None) example_pages example_store))
       = def_table example_store @ [(''x1e.32xlarge'', 3904, 128), (''m5.large'', 8, 2)]
   \<and> map_of (def_table (fst (repopulate_ec2_instance_mapping example_float example_int
                        (\<lambda>n m v. None) example_pages example_store))) ''t2.micro'' = Some (0.5, 1)"
proof -
  have "def_table (fst (repopulate_ec2_instance_mapping example_float example_int
                        (\<lambda>n m v. None) example_pages example_store))
       = def_table example_store @ [(''x1e.32xlarge'', 3904, 128), (''m5.large'', 8, 2)]"
    by (simp add: repopulate_ec2_instance_mapping_def example_fetch transaction_atomic_def
          get_or_create_def example_store_def)
  moreover have "map_of (def_table example_store) ''t2.micro'' = Some (0.5, 1)"
    by (simp add: example_store_def)
  ultimately show ?thesis
    using repopulate_never_overwrites [of example_float example_int "\<lambda>n m v. None"
        example_pages example_store]
    by blast
qed

text \<open>
  C9 (the refresh is atomic). If the fetch returns and saving its definitions raises
  an exception, \<open>repopulate_ec2_instance_mapping\<close> raises that exception and the
  definition table is as it was before the task ran.
\<close>

theorem repopulate_rolls_back:
  assumes "fetch_ec2_instance_type_definitions py_float py_int pages = (fs, None)"
    and "snd (save_ec2_instance_type_definitions ie (fs_instances fs)
                (st\<lparr>save_log := save_log st @ fetch_log fs\<rparr>)) = Some err"
  shows "snd (repopulate_ec2_instance_mapping py_float py_int ie pages st) = Some err
     \<and> def_table (fst (repopulate_ec2_instance_mapping py_float py_int ie pages st)) = def_table st"
  using assms
  by (cases "save_ec2_instance_type_definitions ie (fs_instances fs)
                (st\<lparr>save_log := save_log st @ fetch_log fs\<rparr>)")
     (simp add: repopulate_ec2_instance_mapping_def transaction_atomic_def)

text \<open>In the example the save has added \<open>x1e.32xlarge\<close> when \<open>m5.large\<close> is refused; the task raises and the row is gone.\<close>

theorem repopulate_rolls_back_witness:
  "def_table (fst (save_ec2_instance_type_definitions example_insert_error
       [(''t2.micro'', 1, 1), (''x1e.32xlarge'', 3904, 128), (''m5.large'', 8, 2)]
       (example_store\<lparr>save_log := [GettingInformation, CouldNotFetch ''f1.odd'' (Some ''NA'') (Some ''2'')]\<rparr>)))
     = [(''t2.micro'', 0.5, 1), (''x1e.32xlarge'', 3904, 128)]
   \<and> snd (repopulate_ec2_instance_mapping example_float example_int example_insert_error
            example_pages example_store) = Some IntegrityError
   \<and> def_table (fst (repopulate_ec2_instance_mapping example_float example_int
                        example_insert_error example_pages example_store))
       = [(''t2.micro'', 0.5, 1)]"
proof -
  have sv: "save_ec2_instance_type_definitions example_insert_error
       [(''t2.micro'', 1, 1), (''x1e.32xlarge'', 3904, 128), (''m5.large'', 8, 2)]
       (example_store\<lparr>save_log := [GettingInformation, CouldNotFetch ''f1.odd'' (Some ''NA'') (Some ''2'')]\<rparr>)
     = (\<lparr> def_table = [(''t2.micro'', 0.5, 1), (''x1e.32xlarge'', 3904, 128)],
          save_log = [GettingInformation, CouldNotFetch ''f1.odd'' (Some ''NA'') (Some ''2''),
                      AlreadyExists ''t2.micro'', SavingNew ''x1e.32xlarge'',
                      FailedGetOrCreate ''m5.large''] \<rparr>,
        Some IntegrityError)"
    by (simp add: get_or_create_def example_store_def example_insert_error_def)
  have h: "snd (save_ec2_instance_type_definitions example_insert_error
          (fs_instances \<lparr> fs_instances = [(''t2.micro'', 1, 1), (''x1e.32xlarge'', 3904, 128), (''m5.large'', 8, 2)],
             instance_attr = Some [(''instanceType'', ''m5.large''), (''memory'', ''8 GiB''), (''vcpu'', ''2'')],
             fetch_log = [GettingInformation, CouldNotFetch ''f1.odd'' (Some ''NA'') (Some ''2'')] \<rparr>)
          (example_store\<lparr>save_log := save_log example_store @
              fetch_log \<lparr> fs_instances = [(''t2.micro'', 1, 1), (''x1e.32xlarge'', 3904, 128), (''m5.large'', 8, 2)],
             instance_attr = Some [(''instanceType'', ''m5.large''), (''memory'', ''8 GiB''), (''vcpu'', ''2'')],
             fetch_log = [GettingInformation, CouldNotFetch ''f1.odd'' (Some ''NA'') (Some ''2'')] \<rparr>\<rparr>))
        = Some IntegrityError"
    by (simp add: get_or_create_def example_store_def example_insert_error_def)
  from repopulate_rolls_back [OF example_fetch h] sv
  show ?thesis by (simp add: example_store_def)
qed

text \<open>
  C10 as amended (an entry that does not parse is skipped). For an entry whose
  attributes have an \<open>instanceType\<close> and a \<open>memory\<close>, if \<open>float\<close> raises \<open>ValueError\<close> on
  the memory text or \<open>int\<close> raises it on the \<open>vcpu\<close>, the loop logs the failure, leaves
  the definitions collected so far as they are, and goes on with the remaining
  entries.
\<close>

theorem fetch_skips_unparsable_entry:
  assumes "map_of a ''instanceType'' = Some n"
    and "map_of a ''memory'' = Some m"
    and "py_float (memory_text m) = None \<or> (\<exists>v. map_of a ''vcpu'' = Some v \<and> py_int v = None)"
  shows "fetch_page py_float py_int (Attributes a # rest) st =
           fetch_page py_float py_int rest
             (st\<lparr> instance_attr := Some a,
                  fetch_log := fetch_log st @ [CouldNotFetch n (Some m) (map_of a ''vcpu'')] \<rparr>)"
proof -
  from assms(2,3) have "fetch_try py_float py_int a = Inl ValueError"
    by (auto simp: fetch_try_def split: option.splits)
  with assms(1,2) have "fetch_entry py_float py_int (Attributes a) st =
      (st\<lparr> instance_attr := Some a,
           fetch_log := fetch_log st @ [CouldNotFetch n (Some m) (map_of a ''vcpu'')] \<rparr>, None)"
    by (simp add: fetch_entry_def fetch_except_def)
  then show ?thesis by simp
qed

text \<open>In the example page the entry of \<open>f1.odd\<close> is logged and skipped, and \<open>m5.large\<close> after it is returned.\<close>

theorem fetch_skips_unparsable_entry_witness:
  "map_of [(''instanceType'', ''f1.odd''), (''memory'', ''NA''), (''vcpu'', ''2'')] ''instanceType''
     = Some ''f1.odd''
   \<and> example_float (memory_text ''NA'') = None
   \<and> fetch_page example_float example_int
        [Attributes [(''instanceType'', ''f1.odd''), (''memory'', ''NA''), (''vcpu'', ''2'')],
         Attributes [(''instanceType'', ''m5.large''), (''memory'', ''8 GiB''), (''vcpu'', ''2'')]]
        \<lparr> fs_instances = [], instance_attr = None, fetch_log = [] \<rparr>
     = (\<lparr> fs_instances = [(''m5.large'', 8, 2)],
          instance_attr = Some [(''instanceType'', ''m5.large''), (''memory'', ''8 GiB''), (''vcpu'', ''2'')],
          fetch_log = [CouldNotFetch ''f1.odd'' (Some ''NA'') (Some ''2'')] \<rparr>,
        None)"
proof -
  let ?a = "[(''instanceType'', ''f1.odd''), (''memory'', ''NA''), (''vcpu'', ''2'')]"
  have 1: "map_of ?a ''instanceType'' = Some ''f1.odd''" by simp
  have 2: "map_of ?a ''memory'' = Some ''NA''" by simp
  have 3: "example_float (memory_text ''NA'') = None
           \<or> (\<exists>v. map_of ?a ''vcpu'' = Some v \<and> example_int v = None)"
    by (simp add: memory_text_def example_float_def)
  from fetch_skips_unparsable_entry [where py_float = example_float and py_int = example_int, OF 1 2 3] 3
  show ?thesis by (simp add: fetch_defs)
qed

text \<open>
  C10 as stated fails: the memory of this entry does not parse, the handler of the
  \<open>ValueError\<close> reads \<open>instance_attr["instanceType"]\<close>, which the entry does not have,
  and the \<open>KeyError\<close> leaves the fetch loop.
\<close>

theorem fetch_raises_on_unparsable_entry:
  "map_of [(''memory'', ''NA''), (''vcpu'', ''2'')] ''memory'' = Some ''NA''
   \<and> example_float (memory_text ''NA'') = None
   \<and> snd (fetch_ec2_instance_type_definitions example_float example_int
            [[Attributes [(''memory'', ''NA''), (''vcpu'', ''2'')]]]) = Some KeyError"
  by (simp add: fetch_defs)

end
